theory Spec2Isabelle
  imports Main
begin

section \<open>Texts and character classes\<close>

text \<open>
  A Python \<open>str\<close> is modelled as a HOL \<open>string\<close>: a list of characters, each read as
  the code point of the same number (U+0000 to U+00FF).  The classes below are the ones
  Python's \<open>re\<close> module uses for \<open>str\<close> patterns (Unicode matching), restricted to that
  range.
\<close>

definition cp :: "char \<Rightarrow> nat" where
  "cp c = of_char c"

definition is_digit :: "char \<Rightarrow> bool" where
  \<comment> \<open>the class \<open>[0-9]\<close>\<close>
  "is_digit c = (48 \<le> cp c \<and> cp c \<le> 57)"

definition not_digit :: "char \<Rightarrow> bool" where
  \<comment> \<open>the class \<open>[^0-9]\<close>\<close>
  "not_digit c = (\<not> is_digit c)"

definition is_space :: "char \<Rightarrow> bool" where
  \<comment> \<open>the class \<open>\s\<close> (\<open>str.isspace\<close>): TAB to CR, FS to US, SPACE, NEL, NBSP\<close>
  "is_space c = ((9 \<le> cp c \<and> cp c \<le> 13) \<or> (28 \<le> cp c \<and> cp c \<le> 32)
                 \<or> cp c = 133 \<or> cp c = 160)"

definition slash_or_space :: "char \<Rightarrow> bool" where
  \<comment> \<open>the class \<open>[/\s]\<close>\<close>
  "slash_or_space c = (cp c = 47 \<or> is_space c)"

definition any_char :: "char \<Rightarrow> bool" where
  \<comment> \<open>\<open>.\<close> without DOTALL: everything but the line feed\<close>
  "any_char c = (cp c \<noteq> 10)"

definition is_upper_ascii :: "char \<Rightarrow> bool" where
  "is_upper_ascii c = (65 \<le> cp c \<and> cp c \<le> 90)"

definition is_lower_ascii :: "char \<Rightarrow> bool" where
  "is_lower_ascii c = (97 \<le> cp c \<and> cp c \<le> 122)"

definition is_word :: "char \<Rightarrow> bool" where
  \<comment> \<open>the class \<open>\w\<close>: alphanumeric code points (\<open>str.isalnum\<close>) and the underscore\<close>
  "is_word c = (is_digit c \<or> is_upper_ascii c \<or> is_lower_ascii c \<or> cp c = 95
                \<or> cp c = 170 \<or> cp c = 178 \<or> cp c = 179 \<or> cp c = 181 \<or> cp c = 185
                \<or> cp c = 186 \<or> (188 \<le> cp c \<and> cp c \<le> 190)
                \<or> (192 \<le> cp c \<and> cp c \<le> 214) \<or> (216 \<le> cp c \<and> cp c \<le> 246)
                \<or> 248 \<le> cp c)"

definition lower_char :: "char \<Rightarrow> char" where
  "lower_char c = (if is_upper_ascii c then char_of (cp c + 32) else c)"

definition ci :: "char \<Rightarrow> char \<Rightarrow> bool" where
  \<comment> \<open>a literal of the pattern under IGNORECASE\<close>
  "ci x c = (lower_char c = lower_char x)"

section \<open>Regular expressions as Python's backtracking matcher runs them\<close>

datatype rx =
    Eps
  | Cls "char \<Rightarrow> bool"
  | Bnd
  | Seq rx rx
  | Alt rx rx
  | Rep nat nat rx
  | Star rx
  | Grp nat rx

text \<open>
  A matcher state is the character before the current position (for \<open>\b\<close>), the text
  still to be read, and the groups captured so far.
\<close>

type_synonym mstate = "char option \<times> string \<times> (nat \<rightharpoonup> string)"

definition word_before :: "char option \<Rightarrow> bool" where
  "word_before pv = (case pv of None \<Rightarrow> False | Some c \<Rightarrow> is_word c)"

definition word_after :: "string \<Rightarrow> bool" where
  "word_after cs = (case cs of [] \<Rightarrow> False | c # _ \<Rightarrow> is_word c)"

definition at_boundary :: "char option \<Rightarrow> string \<Rightarrow> bool" where
  "at_boundary pv cs = (word_before pv \<noteq> word_after cs)"

text \<open>
  Greedy bounded repetition: one more round is tried first, stopping here is the
  fallback.  The result lists every way to match, in the order backtracking tries them.
\<close>

primrec rep :: "(mstate \<Rightarrow> mstate list) \<Rightarrow> nat \<Rightarrow> nat \<Rightarrow> mstate \<Rightarrow> mstate list" where
  "rep f lo 0 s = (if lo = 0 then [s] else [])"
| "rep f lo (Suc hi) s =
     concat (map (rep f (lo - 1) hi) (f s)) @ (if lo = 0 then [s] else [])"

fun rx_match :: "rx \<Rightarrow> mstate \<Rightarrow> mstate list" where
  "rx_match Eps s = [s]"
| "rx_match (Cls p) (pv, cs, g) =
     (case cs of [] \<Rightarrow> [] | c # cs' \<Rightarrow> if p c then [(Some c, cs', g)] else [])"
| "rx_match Bnd (pv, cs, g) = (if at_boundary pv cs then [(pv, cs, g)] else [])"
| "rx_match (Seq a b) s = concat (map (rx_match b) (rx_match a s))"
| "rx_match (Alt a b) s = rx_match a s @ rx_match b s"
| "rx_match (Rep lo hi r) s = rep (rx_match r) lo hi s"
| "rx_match (Star r) (pv, cs, g) = rep (rx_match r) 0 (length cs) (pv, cs, g)"
| "rx_match (Grp n r) (pv, cs, g) =
     map (\<lambda>(pv', cs', g'). (pv', cs', g'(n \<mapsto> take (length cs - length cs') cs)))
       (rx_match r (pv, cs, g))"

text \<open>
  \<open>re.search\<close>: the leftmost start position that matches, and there the first match in
  backtracking order.  The result holds the groups of that match.
\<close>

fun rx_scan :: "rx \<Rightarrow> char option \<Rightarrow> string \<Rightarrow> (nat \<rightharpoonup> string) option" where
  "rx_scan r pv [] =
     (case rx_match r (pv, [], Map.empty) of [] \<Rightarrow> None | s # _ \<Rightarrow> Some (snd (snd s)))"
| "rx_scan r pv (c # cs) =
     (case rx_match r (pv, c # cs, Map.empty) of
        [] \<Rightarrow> rx_scan r (Some c) cs
      | s # _ \<Rightarrow> Some (snd (snd s)))"

definition re_search :: "rx \<Rightarrow> string \<Rightarrow> (nat \<rightharpoonup> string) option" where
  "re_search r t = rx_scan r None t"

text \<open>
  The character before the position reached once the characters \<open>xs\<close> have been read.
\<close>

definition last_seen :: "char option \<Rightarrow> string \<Rightarrow> char option" where
  "last_seen pv xs = (if xs = [] then pv else Some (last xs))"

subsection \<open>Building patterns\<close>

definition lit :: "string \<Rightarrow> rx" where
  \<comment> \<open>a run of literal characters, matched regardless of case\<close>
  "lit w = foldr (\<lambda>c r. Seq (Cls (ci c)) r) w Eps"

fun seqs :: "rx list \<Rightarrow> rx" where
  "seqs [] = Eps"
| "seqs [r] = r"
| "seqs (r # rs) = Seq r (seqs rs)"

fun alts :: "rx \<Rightarrow> rx list \<Rightarrow> rx" where
  "alts r [] = r"
| "alts r (x # xs) = Alt r (alts x xs)"

definition plus :: "rx \<Rightarrow> rx" where
  "plus r = Seq r (Star r)"

definition sp :: rx where
  "sp = Cls is_space"

subsection \<open>The patterns of the module\<close>

definition SNOW_HINT_RE :: rx where
  \<comment> \<open>\<^verbatim>\<open>\b(SNOWTAM|RWYCC|RCR|BRAKING|SLUSH|ICE|SNOW|COMPACTED\s+SNOW|WET\s+SNOW|DRY\s+SNOW|MU|CONTAMIN)\b\<close>\<close>
  "SNOW_HINT_RE =
     seqs [Bnd,
           Grp 1 (alts (lit ''SNOWTAM'')
                    [lit ''RWYCC'', lit ''RCR'', lit ''BRAKING'', lit ''SLUSH'', lit ''ICE'',
                     lit ''SNOW'',
                     seqs [lit ''COMPACTED'', plus sp, lit ''SNOW''],
                     seqs [lit ''WET'', plus sp, lit ''SNOW''],
                     seqs [lit ''DRY'', plus sp, lit ''SNOW''],
                     lit ''MU'', lit ''CONTAMIN'']),
           Bnd]"

definition RUNWAY_CLOSED_RE :: rx where
  \<comment> \<open>\<^verbatim>\<open>\b(RWY|RUNWAY).{0,24}\b(CLSD|CLOSED)\b|\bAERODROME\s+CLSD\b\<close>\<close>
  "RUNWAY_CLOSED_RE =
     Alt (seqs [Bnd, Grp 1 (Alt (lit ''RWY'') (lit ''RUNWAY'')), Rep 0 24 (Cls any_char),
                Bnd, Grp 2 (Alt (lit ''CLSD'') (lit ''CLOSED'')), Bnd])
         (seqs [Bnd, lit ''AERODROME'', plus sp, lit ''CLSD'', Bnd])"

definition BRAKING_RE :: rx where
  \<comment> \<open>\<^verbatim>\<open>\bBRAKING\s+(ACTION\s+)?(GOOD|MEDIUM|POOR)\b\<close>\<close>
  "BRAKING_RE =
     seqs [Bnd, lit ''BRAKING'', plus sp, Rep 0 1 (Grp 1 (Seq (lit ''ACTION'') (plus sp))),
           Grp 2 (alts (lit ''GOOD'') [lit ''MEDIUM'', lit ''POOR'']), Bnd]"

definition RWYCC_RE :: rx where
  \<comment> \<open>\<^verbatim>\<open>\bRWYCC\b[^0-9]{0,6}([0-9](?:\s*[/\s]\s*[0-9]){0,5})\<close>\<close>
  "RWYCC_RE =
     seqs [Bnd, lit ''RWYCC'', Bnd, Rep 0 6 (Cls not_digit),
           Grp 1 (Seq (Cls is_digit)
                    (Rep 0 5 (seqs [Star sp, Cls slash_or_space, Star sp, Cls is_digit])))]"

definition CONTEXT_RE :: rx where
  \<comment> \<open>\<^verbatim>\<open>\bRWY\b|\bRUNWAY\b|\bR(?:WY)?CC\b|\bBRAKING\b|\bCONTAMIN\<close>, in \<open>is_snowtam_like\<close>\<close>
  "CONTEXT_RE =
     alts (seqs [Bnd, lit ''RWY'', Bnd])
       [seqs [Bnd, lit ''RUNWAY'', Bnd],
        seqs [Bnd, lit ''R'', Rep 0 1 (lit ''WY''), lit ''CC'', Bnd],
        seqs [Bnd, lit ''BRAKING'', Bnd],
        seqs [Bnd, lit ''CONTAMIN'']]"

definition word_re :: "string \<Rightarrow> rx" where
  \<comment> \<open>\<^verbatim>\<open>r"\b" + re.escape(k) + r"\b"\<close>, for a keyword \<open>k\<close> of letters\<close>
  "word_re k = seqs [Bnd, lit k, Bnd]"

definition RED_WORDS_RE :: rx where
  \<comment> \<open>\<^verbatim>\<open>\b(POOR|UNUSABLE|UNSAFE)\b\<close>\<close>
  "RED_WORDS_RE = seqs [Bnd, Grp 1 (alts (lit ''POOR'') [lit ''UNUSABLE'', lit ''UNSAFE'']), Bnd]"

definition ORANGE_WORDS_RE :: rx where
  \<comment> \<open>\<^verbatim>\<open>\b(MEDIUM|MODERATE)\b\<close>\<close>
  "ORANGE_WORDS_RE = seqs [Bnd, Grp 1 (Alt (lit ''MEDIUM'') (lit ''MODERATE'')), Bnd]"

definition SNOWTAM_RE :: rx where
  \<comment> \<open>\<^verbatim>\<open>\bSNOWTAM\b\<close>, in \<open>is_snowtam_like\<close>\<close>
  "SNOWTAM_RE = seqs [Bnd, lit ''SNOWTAM'', Bnd]"

section \<open>String helpers of Python\<close>

definition py_strip :: "string \<Rightarrow> string" where
  \<comment> \<open>\<open>str.strip()\<close>: white space removed at both ends\<close>
  "py_strip s = rev (dropWhile is_space (rev (dropWhile is_space s)))"

definition upper_char :: "char \<Rightarrow> char" where
  "upper_char c =
     (if is_lower_ascii c \<or> (224 \<le> cp c \<and> cp c \<le> 254 \<and> cp c \<noteq> 247)
      then char_of (cp c - 32) else c)"

definition upper_in_range :: "string \<Rightarrow> bool" where
  \<comment> \<open>no character of the text has its capital beyond U+00FF, as the micro sign (capital
      U+039C) and the y with diaeresis (capital U+0178) have\<close>
  "upper_in_range s = list_all (\<lambda>c. cp c \<noteq> 181 \<and> cp c \<noteq> 255) s"

definition py_upper :: "string \<Rightarrow> string" where
  \<comment> \<open>\<open>str.upper()\<close> of a text that is \<open>upper_in_range\<close>: the sharp s becomes \<open>SS\<close>, the
      other small letters their capitals.  Group 2 of \<open>BRAKING_RE\<close>, made of ASCII letters,
      is such a text.\<close>
  "py_upper s = concat (map (\<lambda>c. if cp c = 223 then ''SS'' else [upper_char c]) s)"

fun split_runs :: "(char \<Rightarrow> bool) \<Rightarrow> string \<Rightarrow> bool \<Rightarrow> string \<Rightarrow> string list" where
  "split_runs p cur insep [] = [cur]"
| "split_runs p cur insep (c # cs) =
     (if p c then (if insep then split_runs p cur True cs else cur # split_runs p [] True cs)
      else split_runs p (cur @ [c]) False cs)"

definition re_split :: "(char \<Rightarrow> bool) \<Rightarrow> string \<Rightarrow> string list" where
  \<comment> \<open>\<open>re.split\<close> on a pattern \<open>[...]+\<close>: the text is cut at every maximal run of
      characters of the class; a run at either end leaves an empty part there\<close>
  "re_split p s = split_runs p [] False s"

definition py_isdigit :: "string \<Rightarrow> bool" where
  \<comment> \<open>\<open>str.isdigit()\<close> on the parts of group 1, which hold no digit but \<open>0\<close> to \<open>9\<close>\<close>
  "py_isdigit part = (part \<noteq> [] \<and> list_all is_digit part)"

definition py_int :: "string \<Rightarrow> int" where
  \<comment> \<open>\<open>int(part)\<close> of a run of decimal digits\<close>
  "py_int part = foldl (\<lambda>a c. 10 * a + int (cp c - 48)) 0 part"

fun py_join :: "string \<Rightarrow> string list \<Rightarrow> string" where
  "py_join sep [] = []"
| "py_join sep [x] = x"
| "py_join sep (x # y # ys) = x @ sep @ py_join sep (y # ys)"

section \<open>Severity scoring and relevance\<close>

definition extract_rwycc_values :: "string \<Rightarrow> int list" where
  "extract_rwycc_values text =
     (case re_search RWYCC_RE text of
        None \<Rightarrow> []
      | Some m \<Rightarrow>
          (case m 1 of
             None \<Rightarrow> []
           | Some raw \<Rightarrow>
               (let vals = map py_int
                             (filter py_isdigit (re_split slash_or_space (py_strip raw)))
                in filter (\<lambda>v. 0 \<le> v \<and> v \<le> 6) vals)))"

record evidence =
  rwycc :: "int list option"
  braking :: "string option"
  closed :: bool
  ev_keywords :: "string list"

definition keyword_list :: "string list" where
  "keyword_list = [''SNOWTAM'', ''RWYCC'', ''RCR'', ''BRAKING'', ''SLUSH'', ''ICE'', ''SNOW'',
                   ''MU'', ''CONTAMIN'']"

definition keyword_fallback :: "string \<Rightarrow> evidence \<Rightarrow> string \<times> evidence" where
  \<comment> \<open>the last part of \<open>severity_from_text\<close>, from the comment "Keyword-only fallback" on\<close>
  "keyword_fallback t ev =
     (let kws = filter (\<lambda>k. re_search (word_re k) t \<noteq> None) keyword_list;
          ev' = ev\<lparr>ev_keywords := kws\<rparr>
      in if re_search RED_WORDS_RE t \<noteq> None then (''red'', ev')
         else if re_search ORANGE_WORDS_RE t \<noteq> None then (''orange'', ev')
         else (''yellow'', ev'))"

definition severity_from_text :: "string \<Rightarrow> string \<times> evidence" where
  "severity_from_text t =
     (let ev0 = \<lparr>rwycc = None, braking = None, closed = False, ev_keywords = []\<rparr>
      in if re_search RUNWAY_CLOSED_RE t \<noteq> None then (''red'', ev0\<lparr>closed := True\<rparr>)
         else
           (case extract_rwycc_values t of
              v # vs \<Rightarrow>
                (let ev1 = ev0\<lparr>rwycc := Some (v # vs)\<rparr>; mn = fold min vs v
                 in if mn \<le> 1 then (''red'', ev1)
                    else if mn \<le> 3 then (''orange'', ev1)
                    else (''yellow'', ev1))
            | [] \<Rightarrow>
                (case re_search BRAKING_RE t of
                   None \<Rightarrow> keyword_fallback t ev0
                 | Some bm \<Rightarrow>
                     (let b = py_upper (case bm 2 of None \<Rightarrow> [] | Some w \<Rightarrow> w);
                          ev2 = ev0\<lparr>braking := Some b\<rparr>
                      in if b = ''POOR'' then (''red'', ev2)
                         else if b = ''MEDIUM'' then (''orange'', ev2)
                         else if b = ''GOOD'' then (''yellow'', ev2)
                         else keyword_fallback t ev2))))"

definition is_snowtam_like :: "string \<Rightarrow> bool" where
  "is_snowtam_like notam_text =
     (if notam_text = [] then False
      else if re_search SNOW_HINT_RE notam_text \<noteq> None then
             (if re_search CONTEXT_RE notam_text \<noteq> None then True
              else if re_search SNOWTAM_RE notam_text \<noteq> None then True
              else False)
      else False)"

section \<open>Whole words, as the specification words them\<close>

text \<open>
  The specification speaks of words found in a text by a case-insensitive whole-word
  match.  These definitions say it without patterns: a word stands at a position when the
  text reads it there, whatever the case, with no word character right before it and
  none right after it; a phrase of two words has white space between them; a term
  prefixed by a word starts like it.  They are compared with the patterns of the module
  below.
\<close>

fun starts_with_ci :: "string \<Rightarrow> string \<Rightarrow> bool" where
  "starts_with_ci [] cs = True"
| "starts_with_ci (x # k) [] = False"
| "starts_with_ci (x # k) (c # cs) = (ci x c \<and> starts_with_ci k cs)"

definition word_here :: "string \<Rightarrow> char option \<Rightarrow> string \<Rightarrow> bool" where
  "word_here k pv cs =
     (\<not> word_before pv \<and> starts_with_ci k cs \<and> \<not> word_after (drop (length k) cs))"

definition word_start_here :: "string \<Rightarrow> char option \<Rightarrow> string \<Rightarrow> bool" where
  "word_start_here k pv cs = (\<not> word_before pv \<and> starts_with_ci k cs)"

definition phrase_here :: "string \<Rightarrow> string \<Rightarrow> char option \<Rightarrow> string \<Rightarrow> bool" where
  "phrase_here a b pv cs =
     (\<not> word_before pv \<and> starts_with_ci a cs
      \<and> takeWhile is_space (drop (length a) cs) \<noteq> []
      \<and> starts_with_ci b (dropWhile is_space (drop (length a) cs))
      \<and> \<not> word_after (drop (length b) (dropWhile is_space (drop (length a) cs))))"

text \<open>\<open>somewhere Q pv t\<close>: \<open>Q\<close> holds at some position of \<open>t\<close>, the end included.\<close>

fun somewhere :: "(char option \<Rightarrow> string \<Rightarrow> bool) \<Rightarrow> char option \<Rightarrow> string \<Rightarrow> bool" where
  "somewhere Q pv [] = Q pv []"
| "somewhere Q pv (c # cs) = (Q pv (c # cs) \<or> somewhere Q (Some c) cs)"

definition has_word :: "string \<Rightarrow> string \<Rightarrow> bool" where
  "has_word k t = somewhere (word_here k) None t"

definition has_word_start :: "string \<Rightarrow> string \<Rightarrow> bool" where
  "has_word_start k t = somewhere (word_start_here k) None t"

definition has_phrase :: "string \<Rightarrow> string \<Rightarrow> string \<Rightarrow> bool" where
  "has_phrase a b t = somewhere (phrase_here a b) None t"

text \<open>
  The vocabulary and the context markers of the relevance filter, as the specification
  lists them.
\<close>

definition has_vocabulary :: "string \<Rightarrow> bool" where
  "has_vocabulary t =
     ((\<exists>k \<in> set [''SNOWTAM'', ''RWYCC'', ''RCR'', ''BRAKING'', ''SLUSH'', ''ICE'', ''SNOW'', ''MU''].
         has_word k t)
      \<or> (\<exists>a \<in> set [''COMPACTED'', ''WET'', ''DRY'']. has_phrase a ''SNOW'' t)
      \<or> has_word_start ''CONTAMIN'' t)"

definition has_context_marker :: "string \<Rightarrow> bool" where
  "has_context_marker t =
     ((\<exists>k \<in> set [''RWY'', ''RUNWAY'', ''RCC'', ''RWYCC'', ''BRAKING'']. has_word k t)
      \<or> has_word_start ''CONTAMIN'' t)"

text \<open>
  A closure: \<open>RWY\<close> or \<open>RUNWAY\<close> at the start of a word, followed by \<open>CLSD\<close> or
  \<open>CLOSED\<close> as a whole word with at most 24 characters of the same line in between
  (the short window of the specification, as the module bounds it); or the phrase
  \<open>AERODROME CLSD\<close>.
\<close>

definition closure_here :: "char option \<Rightarrow> string \<Rightarrow> bool" where
  "closure_here pv cs =
     ((\<exists>k \<in> set [''RWY'', ''RUNWAY''].
         \<not> word_before pv \<and> starts_with_ci k cs
         \<and> (\<exists>n \<in> set [0 ..< 25].
               n \<le> length (takeWhile any_char (drop (length k) cs))
               \<and> (\<exists>c \<in> set [''CLSD'', ''CLOSED''].
                     word_here c
                       (last_seen (last_seen pv (take (length k) cs))
                          (take n (drop (length k) cs)))
                       (drop n (drop (length k) cs)))))
      \<or> phrase_here ''AERODROME'' ''CLSD'' pv cs)"

definition has_closure :: "string \<Rightarrow> bool" where
  "has_closure t = somewhere closure_here None t"

section \<open>Building the status snapshot\<close>

text \<open>
  A notice as the upstream service returns it: every field may be absent or null.  The
  previous snapshot is the \<open>airports\<close> mapping a former run wrote, so its entries are
  status records; a missing or null field reads as \<open>None\<close>.
\<close>

record interp =
  interp_excerpt :: "string option"
  interp_description :: "string option"

record notam =
  icao_code :: "string option"
  icao_message :: "string option"
  notam_interp :: "interp option"

record SnowItem =
  raw :: string
  excerpt :: string
  description :: string

record status =
  loaded :: bool
  has_snowtam :: bool
  severity :: string
  changed :: bool
  last_change_utc :: "string option"
  error :: "string option"
  items :: "SnowItem list"
  evidence :: "evidence option"
  hash :: "string option"

record snapshot =
  generated_at_utc :: string
  source :: string
  window :: "string \<times> string"
  batch_size :: int
  per_page :: int
  max_pages :: int
  blink_hint_minutes :: int
  airports :: "string \<rightharpoonup> status"

text \<open>
  What a run takes from outside: the module's settings, the clock, the hash function and
  the upstream fetch.  \<open>fetch bi batch\<close> is the outcome of \<open>fetch_notams_for_batch\<close>
  for the batch numbered \<open>bi\<close>: the notices, or the exception raised, as its type name
  and message.
\<close>

record env =
  BATCH_SIZE :: int
  PER_PAGE :: int
  MAX_PAGES :: int
  BLINK_HINT_MINUTES :: int
  now :: string
  starts :: string
  ends :: string
  sha1_text :: "string \<Rightarrow> string"
  fetch :: "nat \<Rightarrow> string list \<Rightarrow> (string \<times> string) + notam list"

datatype py_error = ValueError

definition chunk :: "'a list \<Rightarrow> int \<Rightarrow> py_error + 'a list list" where
  \<comment> \<open>\<open>[lst[i:i+n] for i in range(0, len(lst), n)]\<close>: a zero step raises, a negative
      step gives an empty range\<close>
  "chunk lst n =
     (if n = 0 then Inl ValueError
      else if n < 0 then Inr []
      else Inr (map (\<lambda>k. take (nat n) (drop (k * nat n) lst))
                  [0 ..< (length lst + nat n - 1) div nat n]))"

definition or_empty :: "string option \<Rightarrow> string" where
  \<comment> \<open>\<open>x or ""\<close>\<close>
  "or_empty x = (case x of None \<Rightarrow> [] | Some v \<Rightarrow> v)"

text \<open>
  One round of the loop that groups the notices by airport.  A code whose capitals leave
  the range U+0000 to U+00FF is no key of \<open>by_icao\<close>, whose keys are identifiers of that
  range, so its notice is dropped as any notice of an unknown airport is.
\<close>

definition group_notam :: "(string \<rightharpoonup> notam list) \<Rightarrow> notam \<Rightarrow> (string \<rightharpoonup> notam list)" where
  "group_notam by_icao n =
     (let stripped = py_strip (or_empty (icao_code n))
      in if \<not> upper_in_range stripped then by_icao
         else
           (let code = py_upper stripped
            in case by_icao code of
                 None \<Rightarrow> by_icao
               | Some l \<Rightarrow> by_icao(code \<mapsto> l @ [n])))"

definition group_by_icao :: "string list \<Rightarrow> notam list \<Rightarrow> (string \<rightharpoonup> notam list)" where
  "group_by_icao batch notams =
     foldl group_notam (map_of (map (\<lambda>icao. (icao, [])) batch)) notams"

definition order :: "string \<Rightarrow> nat" where
  \<comment> \<open>\<open>order.get(sev, 0)\<close>\<close>
  "order sev =
     (if sev = ''green'' then 0 else if sev = ''yellow'' then 1
      else if sev = ''orange'' then 2 else if sev = ''red'' then 3 else 0)"

definition scan_notam ::
  "SnowItem list \<times> string \<times> evidence option \<Rightarrow> notam
     \<Rightarrow> SnowItem list \<times> string \<times> evidence option" where
  \<comment> \<open>one round of the loop over the notices of an airport\<close>
  "scan_notam st n =
     (case st of (snow_items, worst_sev, worst_evidence) \<Rightarrow>
        let raw_text = or_empty (icao_message n)
        in if \<not> is_snowtam_like raw_text then st
           else
             let exc = (case notam_interp n of None \<Rightarrow> []
                        | Some i \<Rightarrow> or_empty (interp_excerpt i));
                 desc = (case notam_interp n of None \<Rightarrow> []
                         | Some i \<Rightarrow> or_empty (interp_description i));
                 sev_ev = severity_from_text (raw_text @ [CHR 0x0A] @ desc);
                 item = \<lparr>raw = raw_text, excerpt = exc, description = desc\<rparr>
             in if worst_sev = ''green'' then (snow_items @ [item], fst sev_ev, Some (snd sev_ev))
                else if order (fst sev_ev) > order worst_sev
                     then (snow_items @ [item], fst sev_ev, Some (snd sev_ev))
                     else (snow_items @ [item], worst_sev, worst_evidence))"

definition prev_field :: "(string \<rightharpoonup> status) \<Rightarrow> string \<Rightarrow> (status \<Rightarrow> 'a option) \<Rightarrow> 'a option" where
  \<comment> \<open>\<open>prev.get(icao, {}).get(key)\<close> and \<open>(prev.get(icao) or {}).get(key)\<close>\<close>
  "prev_field prev icao key = (case prev icao of None \<Rightarrow> None | Some r \<Rightarrow> key r)"

definition item_blob :: "SnowItem \<Rightarrow> string" where
  "item_blob it = raw it @ [CHR 0x0A] @ excerpt it @ [CHR 0x0A] @ description it"

definition airport_status :: "env \<Rightarrow> (string \<rightharpoonup> status) \<Rightarrow> string \<Rightarrow> notam list \<Rightarrow> status" where
  \<comment> \<open>the body of the loop over the airports of a batch that was fetched\<close>
  "airport_status e prev icao ns =
     (case foldl scan_notam ([], ''green'', None) ns of
        (snow_items, sev, worst_evidence) \<Rightarrow>
          let has_snow = (length snow_items > 0);
              worst_sev = (if \<not> has_snow then ''green'' else sev);
              blob = py_join ([CHR 0x0A, CHR 0x0A] @ ''---'' @ [CHR 0x0A, CHR 0x0A])
                       (map item_blob snow_items);
              new_hash = (if has_snow then sha1_text e blob else ''NO_SNOWTAM'');
              old_hash = prev_field prev icao hash;
              chg = (old_hash \<noteq> None \<and> old_hash \<noteq> Some new_hash);
              last_change = (if chg then Some (now e) else prev_field prev icao last_change_utc)
          in \<lparr>loaded = True, has_snowtam = has_snow, severity = worst_sev, changed = chg,
              last_change_utc = last_change, error = None, items = snow_items,
              evidence = worst_evidence, hash = Some new_hash\<rparr>)"

definition failed_status :: "(string \<rightharpoonup> status) \<Rightarrow> string \<Rightarrow> string \<Rightarrow> status" where
  \<comment> \<open>the record written for an airport whose batch could not be fetched; it has no
      \<open>evidence\<close> entry\<close>
  "failed_status prev err icao =
     \<lparr>loaded = True, has_snowtam = False, severity = ''gray'', changed = False,
      last_change_utc = prev_field prev icao last_change_utc, error = Some err, items = [],
      evidence = None, hash = prev_field prev icao hash\<rparr>"

definition process_batch ::
  "env \<Rightarrow> (string \<rightharpoonup> status) \<Rightarrow> (string \<rightharpoonup> status) \<Rightarrow> nat \<times> string list
     \<Rightarrow> (string \<rightharpoonup> status)" where
  \<comment> \<open>one round of the loop over the batches, on \<open>airports_out\<close>\<close>
  "process_batch e prev airports_out b =
     (case b of (bi, batch) \<Rightarrow>
        (case fetch e bi batch of
           Inl (tname, msg) \<Rightarrow>
             foldl (\<lambda>out icao. out(icao \<mapsto> failed_status prev (tname @ '': '' @ msg) icao))
               airports_out batch
         | Inr notams \<Rightarrow>
             (let by_icao = group_by_icao batch notams
              in foldl (\<lambda>out icao.
                          out(icao \<mapsto> airport_status e prev icao
                                        (case by_icao icao of None \<Rightarrow> [] | Some l \<Rightarrow> l)))
                   airports_out batch)))"

definition build_status :: "env \<Rightarrow> (string \<rightharpoonup> status) \<Rightarrow> string list \<Rightarrow> py_error + snapshot" where
  "build_status e prev icao_list =
     (case chunk icao_list (BATCH_SIZE e) of
        Inl err \<Rightarrow> Inl err
      | Inr batches \<Rightarrow>
          Inr \<lparr>generated_at_utc = now e,
               source = ''Notamify /api/v2/notams (active)'',
               window = (starts e, ends e),
               batch_size = BATCH_SIZE e,
               per_page = PER_PAGE e,
               max_pages = MAX_PAGES e,
               blink_hint_minutes = BLINK_HINT_MINUTES e,
               airports = foldl (process_batch e prev) Map.empty
                            (zip [1 ..< Suc (length batches)] batches)\<rparr>)"

section \<open>Sample runs\<close>

text \<open>
  Concrete inputs at which the theorems below are instantiated: a previous snapshot with
  the three airports \<open>A\<close>, \<open>B\<close> and \<open>C\<close> and the fingerprints \<open>h1\<close>, \<open>h2\<close> and
  \<open>NO_SNOWTAM\<close> (\<open>A\<close> never changed before, \<open>B\<close> and \<open>C\<close> did), settings with
  batches of three, and two upstream services: one that returns no notice at all, one
  whose first batch raises.  The identity stands for the hash function in these runs.
\<close>

definition sample_status :: "string \<Rightarrow> string option \<Rightarrow> status" where
  "sample_status h lc =
     \<lparr>loaded = True, has_snowtam = False, severity = ''green'', changed = False,
      last_change_utc = lc, error = None, items = [], evidence = None, hash = Some h\<rparr>"

definition sample_prev :: "string \<rightharpoonup> status" where
  "sample_prev = [''A'' \<mapsto> sample_status ''h1'' None,
                  ''B'' \<mapsto> sample_status ''h2'' (Some ''2023-12-24T18:00:00Z''),
                  ''C'' \<mapsto> sample_status ''NO_SNOWTAM'' (Some ''2023-12-31T06:00:00Z'')]"

definition sample_env :: "(nat \<Rightarrow> string list \<Rightarrow> (string \<times> string) + notam list) \<Rightarrow> env" where
  "sample_env f =
     \<lparr>BATCH_SIZE = 3, PER_PAGE = 30, MAX_PAGES = 1, BLINK_HINT_MINUTES = 90,
      now = ''2024-01-02T03:04:05Z'', starts = ''2024-01-01T03:04:05Z'',
      ends = ''2024-01-09T03:04:05Z'', sha1_text = id, fetch = f\<rparr>"

definition sample_snapshot :: "(string \<rightharpoonup> status) \<Rightarrow> snapshot" where
  \<comment> \<open>the snapshot a run under \<open>sample_env\<close> returns, around its \<open>airports\<close>\<close>
  "sample_snapshot ap =
     \<lparr>generated_at_utc = ''2024-01-02T03:04:05Z'', source = ''Notamify /api/v2/notams (active)'',
      window = (''2024-01-01T03:04:05Z'', ''2024-01-09T03:04:05Z''), batch_size = 3,
      per_page = 30, max_pages = 1, blink_hint_minutes = 90, airports = ap\<rparr>"

definition fetch_nothing :: "nat \<Rightarrow> string list \<Rightarrow> (string \<times> string) + notam list" where
  "fetch_nothing bi batch = Inr []"

definition fetch_first_fails :: "nat \<Rightarrow> string list \<Rightarrow> (string \<times> string) + notam list" where
  "fetch_first_fails bi batch =
     (if bi = 1 then Inl (''RuntimeError'', ''Notamify API error 401'') else Inr [])"

section \<open>Evaluating the patterns\<close>

text \<open>
  The character classes, decided on the eight bits of a character (\<open>b0\<close> is the lowest):
  with these equations the simplifier runs the matcher on a concrete text.
\<close>

lemma is_digit_Char:
  "is_digit (Char b0 b1 b2 b3 b4 b5 b6 b7) = (\<not> b7 \<and> (\<not> b6 \<and> (b5 \<and> (b4
      \<and> (\<not> b3 \<or> (\<not> b2 \<and> \<not> b1))))))"
  by (cases b0; cases b1; cases b2; cases b3; cases b4; cases b5; cases b6; cases b7;
      simp add: is_digit_def cp_def)

lemma is_space_Char:
  "is_space (Char b0 b1 b2 b3 b4 b5 b6 b7) = (if b7 then (\<not> b6 \<and> (if b5 then (\<not>
      b4 \<and> (\<not> b3 \<and> (\<not> b2 \<and> (\<not> b1 \<and> \<not> b0)))) else (\<not>
      b4 \<and> (\<not> b3 \<and> (b2 \<and> (\<not> b1 \<and> b0)))))) else (\<not> b6 \<and>
      (if b5 then (\<not> b4 \<and> (\<not> b3 \<and> (\<not> b2 \<and> (\<not> b1 \<and> \<not>
      b0)))) else (if b4 then (b3 \<and> b2) else (b3 \<and> (if b2 then \<not> b1 else (b1
      \<or> b0)))))))"
  by (cases b0; cases b1; cases b2; cases b3; cases b4; cases b5; cases b6; cases b7;
      simp add: is_space_def cp_def)

lemma is_upper_ascii_Char:
  "is_upper_ascii (Char b0 b1 b2 b3 b4 b5 b6 b7) = (\<not> b7 \<and> (b6 \<and> (\<not> b5
      \<and> (if b4 then (\<not> b3 \<or> (\<not> b2 \<and> (\<not> b1 \<or> \<not> b0))) else
      (b3 \<or> (b2 \<or> (b1 \<or> b0)))))))"
  by (cases b0; cases b1; cases b2; cases b3; cases b4; cases b5; cases b6; cases b7;
      simp add: is_upper_ascii_def cp_def)

lemma is_word_Char:
  "is_word (Char b0 b1 b2 b3 b4 b5 b6 b7) = (if b7 then (if b6 then (if b5 then (\<not> b4 \<or>
      (b3 \<or> (\<not> b2 \<or> (\<not> b1 \<or> \<not> b0)))) else (\<not> b4 \<or> (b3 \<or>
      (\<not> b2 \<or> (\<not> b1 \<or> \<not> b0))))) else (b5 \<and> (if b4 then (if b3 then
      (if b2 then (\<not> b1 \<or> \<not> b0) else (if b1 then \<not> b0 else b0)) else (if b2
      then (\<not> b1 \<and> b0) else b1)) else (b3 \<and> (\<not> b2 \<and> (b1 \<and> \<not>
      b0)))))) else (if b6 then (if b5 then (if b4 then (\<not> b3 \<or> (\<not> b2 \<and>
      (\<not> b1 \<or> \<not> b0))) else (b3 \<or> (b2 \<or> (b1 \<or> b0)))) else (if b4 then
      (\<not> b3 \<or> (if b2 then (b1 \<and> b0) else (\<not> b1 \<or> \<not> b0))) else (b3
      \<or> (b2 \<or> (b1 \<or> b0))))) else (b5 \<and> (b4 \<and> (\<not> b3 \<or> (\<not> b2
      \<and> \<not> b1))))))"
  by (cases b0; cases b1; cases b2; cases b3; cases b4; cases b5; cases b6; cases b7;
      simp add: is_word_def is_digit_def is_upper_ascii_def is_lower_ascii_def cp_def)

lemma is_lower_ascii_Char:
  "is_lower_ascii (Char b0 b1 b2 b3 b4 b5 b6 b7) = (\<not> b7 \<and> (b6 \<and> (b5 \<and> (if
      b4 then (\<not> b3 \<or> (\<not> b2 \<and> (\<not> b1 \<or> \<not> b0))) else (b3 \<or>
      (b2 \<or> (b1 \<or> b0)))))))"
  by (cases b0; cases b1; cases b2; cases b3; cases b4; cases b5; cases b6; cases b7;
      simp add: is_lower_ascii_def cp_def)

lemma lower_char_Char:
  "lower_char (Char b0 b1 b2 b3 b4 b5 b6 b7) =
     (if is_upper_ascii (Char b0 b1 b2 b3 b4 b5 b6 b7) then Char b0 b1 b2 b3 b4 True b6 b7
      else Char b0 b1 b2 b3 b4 b5 b6 b7)"
  by (cases b0; cases b1; cases b2; cases b3; cases b4; cases b5; cases b6; cases b7;
      simp add: lower_char_def is_upper_ascii_def cp_def char_of_def bit_Suc_0_iff)

lemma any_char_Char:
  "any_char (Char b0 b1 b2 b3 b4 b5 b6 b7) =
     (\<not> (\<not> b0 \<and> b1 \<and> \<not> b2 \<and> b3 \<and> \<not> b4 \<and> \<not> b5
         \<and> \<not> b6 \<and> \<not> b7))"
  by (cases b0; cases b1; cases b2; cases b3; cases b4; cases b5; cases b6; cases b7;
      simp add: any_char_def cp_def)

lemma slash_or_space_Char:
  "slash_or_space (Char b0 b1 b2 b3 b4 b5 b6 b7) =
     ((b0 \<and> b1 \<and> b2 \<and> b3 \<and> \<not> b4 \<and> b5 \<and> \<not> b6 \<and>
         \<not> b7)
      \<or> is_space (Char b0 b1 b2 b3 b4 b5 b6 b7))"
  by (cases b0; cases b1; cases b2; cases b3; cases b4; cases b5; cases b6; cases b7;
      simp add: slash_or_space_def is_space_def cp_def)

lemma upper_char_Char:
  "upper_char (Char b0 b1 b2 b3 b4 b5 b6 b7) =
     (if is_lower_ascii (Char b0 b1 b2 b3 b4 b5 b6 b7)
         \<or> (b7 \<and> b6 \<and> b5 \<and> \<not> (b0 \<and> b1 \<and> b2 \<and> b4) )
      then Char b0 b1 b2 b3 b4 False b6 b7
      else Char b0 b1 b2 b3 b4 b5 b6 b7)"
  by (cases b0; cases b1; cases b2; cases b3; cases b4; cases b5; cases b6; cases b7;
      simp add: upper_char_def is_lower_ascii_def cp_def char_of_def bit_Suc_0_iff)

lemmas rx_eval = is_digit_Char is_space_Char is_upper_ascii_Char is_word_Char lower_char_Char
  any_char_Char slash_or_space_Char not_digit_def ci_def word_before_def word_after_def
  at_boundary_def lit_def plus_def sp_def re_search_def numeral_eq_Suc

subsection \<open>The sample texts, evaluated\<close>

lemmas str_eval = py_strip_def re_split_def py_isdigit_def py_int_def cp_def

lemma closed_rwy_09_clsd: "re_search RUNWAY_CLOSED_RE ''RWY 09 CLSD'' \<noteq> None"
  by (simp add: rx_eval RUNWAY_CLOSED_RE_def)

lemma closed_aerodrome_clsd: "re_search RUNWAY_CLOSED_RE ''AERODROME CLSD'' \<noteq> None"
  by (simp add: rx_eval RUNWAY_CLOSED_RE_def)

lemma closed_with_rwycc: "re_search RUNWAY_CLOSED_RE ''RWY 09 CLSD RWYCC 0'' \<noteq> None"
  by (simp add: rx_eval RUNWAY_CLOSED_RE_def)

lemma extract_with_closure: "extract_rwycc_values ''RWY 09 CLSD RWYCC 0'' = [0]"
  by (simp add: extract_rwycc_values_def rx_eval RWYCC_RE_def str_eval)

lemma closed_scenario:
  "re_search RUNWAY_CLOSED_RE ''SNOWTAM 0123 RWYCC 5/5/4 BRAKING ACTION GOOD'' = None"
  by (simp add: rx_eval RUNWAY_CLOSED_RE_def)

lemma extract_scenario:
  "extract_rwycc_values ''SNOWTAM 0123 RWYCC 5/5/4 BRAKING ACTION GOOD'' = [5, 5, 4]"
  by (simp add: extract_rwycc_values_def rx_eval RWYCC_RE_def str_eval)

lemma braking_scenario:
  "re_search BRAKING_RE ''SNOWTAM 0123 RWYCC 5/5/4 BRAKING ACTION GOOD'' \<noteq> None"
  by (simp add: rx_eval BRAKING_RE_def)

lemma closed_rwycc_0: "re_search RUNWAY_CLOSED_RE ''RWYCC 0'' = None"
  by (simp add: rx_eval RUNWAY_CLOSED_RE_def)

lemma extract_rwycc_0: "extract_rwycc_values ''RWYCC 0'' = [0]"
  by (simp add: extract_rwycc_values_def rx_eval RWYCC_RE_def str_eval)

lemma extract_discards: "extract_rwycc_values ''RWYCC 7/3/9'' = [3]"
  by (simp add: extract_rwycc_values_def rx_eval RWYCC_RE_def str_eval)

lemmas fallback_eval = keyword_fallback_def keyword_list_def word_re_def RED_WORDS_RE_def
  ORANGE_WORDS_RE_def

lemma closed_slush: "re_search RUNWAY_CLOSED_RE ''TWY A SLUSH MODERATE'' = None"
  by (simp add: rx_eval RUNWAY_CLOSED_RE_def)

lemma extract_slush: "extract_rwycc_values ''TWY A SLUSH MODERATE'' = []"
  by (simp add: extract_rwycc_values_def rx_eval RWYCC_RE_def)

lemma braking_slush: "re_search BRAKING_RE ''TWY A SLUSH MODERATE'' = None"
  by (simp add: rx_eval BRAKING_RE_def)

lemma fallback_slush:
  "keyword_fallback ''TWY A SLUSH MODERATE'' ev = (''orange'', ev\<lparr>ev_keywords := [''SLUSH'']\<rparr>)"
  by (simp add: rx_eval fallback_eval)

lemma closed_empty: "re_search RUNWAY_CLOSED_RE [] = None"
  by (simp add: rx_eval RUNWAY_CLOSED_RE_def)

lemma extract_empty: "extract_rwycc_values [] = []"
  by (simp add: extract_rwycc_values_def rx_eval RWYCC_RE_def)

lemma braking_empty: "re_search BRAKING_RE [] = None"
  by (simp add: rx_eval BRAKING_RE_def)

lemma fallback_empty: "keyword_fallback [] ev = (''yellow'', ev\<lparr>ev_keywords := []\<rparr>)"
  by (simp add: rx_eval fallback_eval)

lemma closed_unsafe: "re_search RUNWAY_CLOSED_RE ''APRON ICE UNSAFE'' = None"
  by (simp add: rx_eval RUNWAY_CLOSED_RE_def)

lemma extract_unsafe: "extract_rwycc_values ''APRON ICE UNSAFE'' = []"
  by (simp add: extract_rwycc_values_def rx_eval RWYCC_RE_def)

lemma braking_unsafe: "re_search BRAKING_RE ''APRON ICE UNSAFE'' = None"
  by (simp add: rx_eval BRAKING_RE_def)

lemma fallback_unsafe:
  "keyword_fallback ''APRON ICE UNSAFE'' ev = (''red'', ev\<lparr>ev_keywords := [''ICE'']\<rparr>)"
  by (simp add: rx_eval fallback_eval)

lemma hint_empty: "re_search SNOW_HINT_RE [] = None"
  by (simp add: rx_eval SNOW_HINT_RE_def)

lemma hint_snow_town: "re_search SNOW_HINT_RE ''HEAVY SNOW IN TOWN'' \<noteq> None"
  by (simp add: rx_eval SNOW_HINT_RE_def)

lemma context_snow_town: "re_search CONTEXT_RE ''HEAVY SNOW IN TOWN'' = None"
  by (simp add: rx_eval CONTEXT_RE_def)

lemma snowtam_snow_town: "re_search SNOWTAM_RE ''HEAVY SNOW IN TOWN'' = None"
  by (simp add: rx_eval SNOWTAM_RE_def)

lemma hint_scenario:
  "re_search SNOW_HINT_RE ''SNOWTAM 0123 RWYCC 5/5/4 BRAKING ACTION GOOD'' \<noteq> None"
  by (simp add: rx_eval SNOW_HINT_RE_def)

lemma context_scenario:
  "re_search CONTEXT_RE ''SNOWTAM 0123 RWYCC 5/5/4 BRAKING ACTION GOOD'' \<noteq> None"
  by (simp add: rx_eval CONTEXT_RE_def)

lemma hint_snowtam: "re_search SNOW_HINT_RE ''SNOWTAM 0123'' \<noteq> None"
  by (simp add: rx_eval SNOW_HINT_RE_def)

lemma context_snowtam: "re_search CONTEXT_RE ''SNOWTAM 0123'' = None"
  by (simp add: rx_eval CONTEXT_RE_def)

lemma snowtam_snowtam: "re_search SNOWTAM_RE ''SNOWTAM 0123'' \<noteq> None"
  by (simp add: rx_eval SNOWTAM_RE_def)

text \<open>
  A text scored by its braking action, written in lower case; a text with two groups of
  codes, of which only the first is read; and a text whose only vocabulary is
  \<open>CONTAMINATED\<close>, which the vocabulary pattern, asking for \<open>CONTAMIN\<close> as a whole
  word, does not match.
\<close>

lemma closed_braking: "re_search RUNWAY_CLOSED_RE ''Braking action medium'' = None"
  by (simp add: rx_eval RUNWAY_CLOSED_RE_def)

lemma extract_braking: "extract_rwycc_values ''Braking action medium'' = []"
  by (simp add: extract_rwycc_values_def rx_eval RWYCC_RE_def)

lemma braking_medium:
  "\<exists>m. re_search BRAKING_RE ''Braking action medium'' = Some m \<and> m 2 = Some ''medium''"
  by (simp add: rx_eval BRAKING_RE_def)

lemma upper_medium: "py_upper ''medium'' = ''MEDIUM''"
  by (simp add: py_upper_def upper_char_Char is_lower_ascii_Char cp_def)

lemma severity_braking:
  "severity_from_text ''Braking action medium'' =
     (''orange'', \<lparr>rwycc = None, braking = Some ''MEDIUM'', closed = False, ev_keywords = []\<rparr>)"
proof -
  from braking_medium obtain m
    where "re_search BRAKING_RE ''Braking action medium'' = Some m" and "m 2 = Some ''medium''"
    by blast
  then show ?thesis
    by (simp add: severity_from_text_def closed_braking extract_braking upper_medium)
qed

lemma closed_two_groups: "re_search RUNWAY_CLOSED_RE ''RWYCC 5 RWYCC 0'' = None"
  by (simp add: rx_eval RUNWAY_CLOSED_RE_def)

lemma extract_two_groups: "extract_rwycc_values ''RWYCC 5 RWYCC 0'' = [5]"
  by (simp add: extract_rwycc_values_def rx_eval RWYCC_RE_def str_eval)

lemma severity_two_groups:
  "severity_from_text ''RWYCC 5 RWYCC 0'' =
     (''yellow'', \<lparr>rwycc = Some [5], braking = None, closed = False, ev_keywords = []\<rparr>)"
  by (simp add: severity_from_text_def closed_two_groups extract_two_groups)

lemma hint_contaminated: "re_search SNOW_HINT_RE ''RWY 27 CONTAMINATED'' = None"
  by (simp add: rx_eval SNOW_HINT_RE_def)

section \<open>The patterns and whole words\<close>

text \<open>
  What the matcher finds with the word patterns of the module is what the definitions of
  whole words say.  First the matcher on a literal, on a pattern between two word
  boundaries and on \<open>re.search\<close>.
\<close>

lemma rx_scan_somewhere:
  assumes "\<And>pv cs. (rx_match r (pv, cs, Map.empty) \<noteq> []) = Q pv cs"
  shows "(rx_scan r pv t \<noteq> None) = somewhere Q pv t"
proof (induction t arbitrary: pv)
  case Nil
  show ?case
    using assms [of pv "[]"] by (cases "rx_match r (pv, [], Map.empty)") auto
next
  case (Cons c cs)
  show ?case
    using assms [of pv "c # cs"] Cons [of "Some c"]
    by (cases "rx_match r (pv, c # cs, Map.empty)") auto
qed

lemma somewhere_disj:
  "somewhere (\<lambda>pv cs. P pv cs \<or> Q pv cs) pv t = (somewhere P pv t \<or> somewhere Q pv t)"
  by (induction t arbitrary: pv) auto

lemma somewhere_bex:
  "somewhere (\<lambda>pv cs. \<exists>k \<in> set ks. Q k pv cs) pv t = (\<exists>k \<in> set ks. somewhere (Q k) pv t)"
  by (induction t arbitrary: pv) auto

lemma somewhere_mono:
  "(\<And>pv cs. P pv cs \<Longrightarrow> Q pv cs) \<Longrightarrow> somewhere P pv t \<Longrightarrow> somewhere Q pv t"
  by (induction t arbitrary: pv) auto

lemma lit_Nil: "lit [] = Eps"
  by (simp add: lit_def)

lemma lit_Cons: "lit (x # k) = Seq (Cls (ci x)) (lit k)"
  by (simp add: lit_def)

lemma last_seen_Cons: "last_seen pv (c # xs) = last_seen (Some c) xs"
  by (simp add: last_seen_def)

lemma rx_match_lit:
  "rx_match (lit k) (pv, cs, g) =
     (if starts_with_ci k cs then [(last_seen pv (take (length k) cs), drop (length k) cs, g)]
      else [])"
proof (induction k arbitrary: pv cs)
  case Nil
  show ?case by (simp add: lit_Nil last_seen_def)
next
  case (Cons x k)
  show ?case
  proof (cases cs)
    case Nil
    then show ?thesis by (simp add: lit_Cons)
  next
    case (Cons c cs')
    then show ?thesis by (simp add: lit_Cons Cons.IH last_seen_def)
  qed
qed

lemma is_word_lower_char: "is_word (lower_char c) = is_word c"
proof (cases c)
  case (Char b0 b1 b2 b3 b4 b5 b6 b7)
  show ?thesis
    unfolding Char
    by (cases b0; cases b1; cases b2; cases b3; cases b4; cases b5; cases b6; cases b7;
        simp add: lower_char_Char is_word_Char is_upper_ascii_Char)
qed

lemma is_space_lower_char: "is_space (lower_char c) = is_space c"
proof (cases c)
  case (Char b0 b1 b2 b3 b4 b5 b6 b7)
  show ?thesis
    unfolding Char
    by (cases b0; cases b1; cases b2; cases b3; cases b4; cases b5; cases b6; cases b7;
        simp add: lower_char_Char is_space_Char is_upper_ascii_Char)
qed

lemma ci_is_word: "ci x c \<Longrightarrow> is_word c = is_word x"
  by (metis ci_def is_word_lower_char)

lemma ci_is_space: "ci x c \<Longrightarrow> is_space c = is_space x"
  by (metis ci_def is_space_lower_char)

lemma starts_word_after:
  "starts_with_ci k cs \<Longrightarrow> k \<noteq> [] \<Longrightarrow> is_word (hd k) \<Longrightarrow> word_after cs"
  by (cases k; cases cs) (auto simp: word_after_def ci_is_word)

lemma starts_word_before:
  "starts_with_ci k cs \<Longrightarrow> k \<noteq> [] \<Longrightarrow> is_word (last k) \<Longrightarrow>
     word_before (last_seen pv (take (length k) cs))"
proof (induction k cs arbitrary: pv rule: starts_with_ci.induct)
  case (1 cs)
  then show ?case by simp
next
  case (2 x k)
  then show ?case by simp
next
  case (3 x k c cs)
  show ?case
  proof (cases "k = []")
    case True
    with 3 show ?thesis by (simp add: last_seen_def word_before_def ci_is_word)
  next
    case False
    with 3 have "word_before (last_seen (Some c) (take (length k) cs))" by simp
    moreover from False 3(2) have "take (length k) cs \<noteq> []" by (cases k; cases cs) auto
    ultimately show ?thesis by (simp add: last_seen_def)
  qed
qed

lemma word_here_iff:
  assumes "k \<noteq> []" and "is_word (hd k)" and "is_word (last k)"
  shows "(at_boundary pv cs \<and> starts_with_ci k cs
          \<and> at_boundary (last_seen pv (take (length k) cs)) (drop (length k) cs))
         = word_here k pv cs"
  using starts_word_after [OF _ assms(1,2)] starts_word_before [OF _ assms(1,3)]
  by (auto simp: word_here_def at_boundary_def)

lemma set_alts: "set (rx_match (alts r rs) s) = (\<Union>x \<in> set (r # rs). set (rx_match x s))"
  by (induction rs arbitrary: r) auto

lemma bnd_nonempty: "(rx_match Bnd s \<noteq> []) = at_boundary (fst s) (fst (snd s))"
  by (cases s) simp

lemma bnd_first:
  "rx_match (Seq Bnd r) (pv, cs, g) = (if at_boundary pv cs then rx_match r (pv, cs, g) else [])"
  by simp

lemma seq_nonempty:
  "(rx_match (Seq a b) s \<noteq> []) = (\<exists>s' \<in> set (rx_match a s). rx_match b s' \<noteq> [])"
  by auto

lemma bounded_nonempty:
  "(rx_match (Seq Bnd (Seq r Bnd)) (pv, cs, g) \<noteq> []) =
     (at_boundary pv cs
      \<and> (\<exists>s' \<in> set (rx_match r (pv, cs, g)). at_boundary (fst s') (fst (snd s'))))"
  unfolding bnd_first by (simp only: seq_nonempty bnd_nonempty split: if_splits) simp

lemma grp_bounded:
  "(\<exists>s' \<in> set (rx_match (Grp n r) (pv, cs, g)). at_boundary (fst s') (fst (snd s'))) =
   (\<exists>s' \<in> set (rx_match r (pv, cs, g)). at_boundary (fst s') (fst (snd s')))"
  by (auto simp: split_def)

lemma nonempty_set: "(xs \<noteq> []) = (\<exists>x. x \<in> set xs)"
  by (cases xs) auto

lemma alts_nonempty:
  "(rx_match (alts r rs) s \<noteq> []) = (\<exists>x \<in> set (r # rs). rx_match x s \<noteq> [])"
  unfolding nonempty_set set_alts by blast

lemma bex_set_Nil: "(\<exists>x \<in> set []. P x) = False"
  by simp

lemma bex_set_Cons: "(\<exists>x \<in> set (a # as). P x) = (P a \<or> (\<exists>x \<in> set as. P x))"
  by simp

text \<open>
  A word between two boundaries, a list of such words in a group, and a word after a
  boundary.
\<close>

lemma word_here_lit:
  assumes "k \<noteq> []" and "is_word (hd k)" and "is_word (last k)"
  shows "(at_boundary pv cs
          \<and> (\<exists>s' \<in> set (rx_match (lit k) (pv, cs, g)). at_boundary (fst s') (fst (snd s'))))
         = word_here k pv cs"
  using word_here_iff [OF assms, of pv cs] by (auto simp: rx_match_lit)

lemma word_re_here:
  assumes "k \<noteq> []" and "is_word (hd k)" and "is_word (last k)"
  shows "(rx_match (word_re k) (pv, cs, g) \<noteq> []) = word_here k pv cs"
  unfolding word_re_def seqs.simps bounded_nonempty by (rule word_here_lit [OF assms])

lemma word_re_has_word:
  assumes "k \<noteq> []" and "is_word (hd k)" and "is_word (last k)"
  shows "(re_search (word_re k) t \<noteq> None) = has_word k t"
  unfolding re_search_def has_word_def
  by (rule rx_scan_somewhere) (rule word_re_here [OF assms])

lemma bounded_lit_here:
  assumes "k \<noteq> []" and "is_word (hd k)" and "is_word (last k)"
  shows "(rx_match (Seq Bnd (Seq (lit k) Bnd)) (pv, cs, g) \<noteq> []) = word_here k pv cs"
  unfolding bounded_nonempty by (rule word_here_lit [OF assms])

lemma word_start_lit:
  assumes "k \<noteq> []" and "is_word (hd k)"
  shows "(rx_match (Seq Bnd (lit k)) (pv, cs, g) \<noteq> []) = word_start_here k pv cs"
  using starts_word_after [OF _ assms, of cs]
  by (auto simp: rx_match_lit word_start_here_def at_boundary_def)

lemma has_word_is_start: "has_word k t \<Longrightarrow> has_word_start k t"
  unfolding has_word_def has_word_start_def
  by (erule somewhere_mono [rotated]) (simp add: word_here_def word_start_here_def)

lemma words_here:
  assumes "\<forall>k \<in> set (k0 # ks). k \<noteq> [] \<and> is_word (hd k) \<and> is_word (last k)"
  shows "(rx_match (seqs [Bnd, Grp n (alts (lit k0) (map lit ks)), Bnd]) (pv, cs, g) \<noteq> []) =
           (\<exists>k \<in> set (k0 # ks). word_here k pv cs)"
proof -
  have "(rx_match (seqs [Bnd, Grp n (alts (lit k0) (map lit ks)), Bnd]) (pv, cs, g) \<noteq> []) =
          (\<exists>k \<in> set (k0 # ks). at_boundary pv cs
             \<and> (\<exists>s' \<in> set (rx_match (lit k) (pv, cs, g)). at_boundary (fst s') (fst (snd s'))))"
    unfolding seqs.simps bounded_nonempty grp_bounded set_alts by auto
  also have "\<dots> = (\<exists>k \<in> set (k0 # ks). word_here k pv cs)"
    using assms by (intro bex_cong refl word_here_lit) auto
  finally show ?thesis .
qed

lemma words_have:
  assumes "\<forall>k \<in> set (k0 # ks). k \<noteq> [] \<and> is_word (hd k) \<and> is_word (last k)"
  shows "(re_search (seqs [Bnd, Grp n (alts (lit k0) (map lit ks)), Bnd]) t \<noteq> None) =
           (\<exists>k \<in> set (k0 # ks). has_word k t)"
proof -
  have "(re_search (seqs [Bnd, Grp n (alts (lit k0) (map lit ks)), Bnd]) t \<noteq> None) =
          somewhere (\<lambda>pv cs. \<exists>k \<in> set (k0 # ks). word_here k pv cs) None t"
    unfolding re_search_def by (rule rx_scan_somewhere) (rule words_here [OF assms])
  then show ?thesis by (simp only: somewhere_bex has_word_def)
qed

lemma red_words_have:
  "(re_search RED_WORDS_RE t \<noteq> None) =
     (\<exists>k \<in> set [''POOR'', ''UNUSABLE'', ''UNSAFE'']. has_word k t)"
proof -
  have p: "RED_WORDS_RE =
             seqs [Bnd, Grp 1 (alts (lit ''POOR'') (map lit [''UNUSABLE'', ''UNSAFE''])), Bnd]"
    by (simp add: RED_WORDS_RE_def)
  have w: "\<forall>k \<in> set [''POOR'', ''UNUSABLE'', ''UNSAFE''].
             k \<noteq> [] \<and> is_word (hd k) \<and> is_word (last k)"
    by (simp add: is_word_Char)
  show ?thesis unfolding p by (rule words_have [OF w])
qed

lemma orange_words_have:
  "(re_search ORANGE_WORDS_RE t \<noteq> None) = (\<exists>k \<in> set [''MEDIUM'', ''MODERATE'']. has_word k t)"
proof -
  have p: "ORANGE_WORDS_RE = seqs [Bnd, Grp 1 (alts (lit ''MEDIUM'') (map lit [''MODERATE''])), Bnd]"
    by (simp add: ORANGE_WORDS_RE_def)
  have w: "\<forall>k \<in> set [''MEDIUM'', ''MODERATE'']. k \<noteq> [] \<and> is_word (hd k) \<and> is_word (last k)"
    by (simp add: is_word_Char)
  show ?thesis unfolding p by (rule words_have [OF w])
qed

lemma snowtam_has_word: "(re_search SNOWTAM_RE t \<noteq> None) = has_word ''SNOWTAM'' t"
proof -
  have p: "SNOWTAM_RE = word_re ''SNOWTAM''" by (simp add: SNOWTAM_RE_def word_re_def)
  show ?thesis unfolding p by (rule word_re_has_word) (simp_all add: is_word_Char)
qed

lemma keyword_has_word:
  "k \<in> set keyword_list \<Longrightarrow> (re_search (word_re k) t \<noteq> None) = has_word k t"
  by (rule word_re_has_word) (auto simp: keyword_list_def is_word_Char)

text \<open>
  White space between two words, and an optional part inside a word.
\<close>

lemma rep_cls_mem:
  "s' \<in> set (rep (rx_match (Cls p)) 0 hi (pv, cs, g)) \<longleftrightarrow>
     (\<exists>n. n \<le> hi \<and> n \<le> length (takeWhile p cs)
          \<and> s' = (last_seen pv (take n cs), drop n cs, g))"
proof (induction hi arbitrary: pv cs)
  case 0
  show ?case by (auto simp: last_seen_def)
next
  case (Suc hi)
  show ?case
  proof (cases cs)
    case Nil
    then show ?thesis by (auto simp: last_seen_def)
  next
    case (Cons c cs')
    show ?thesis
    proof (cases "p c")
      case False
      with Cons show ?thesis by (auto simp: last_seen_def)
    next
      case True
      have l: "last_seen pv (c # take n cs') = last_seen (Some c) (take n cs')" for n
        by (rule last_seen_Cons)
      show ?thesis
      proof
        assume "s' \<in> set (rep (rx_match (Cls p)) 0 (Suc hi) (pv, cs, g))"
        with Cons True have "s' \<in> set (rep (rx_match (Cls p)) 0 hi (Some c, cs', g))
                              \<or> s' = (pv, cs, g)"
          by auto
        then show "\<exists>n. n \<le> Suc hi \<and> n \<le> length (takeWhile p cs)
                      \<and> s' = (last_seen pv (take n cs), drop n cs, g)"
        proof
          assume "s' \<in> set (rep (rx_match (Cls p)) 0 hi (Some c, cs', g))"
          then obtain n where "n \<le> hi" "n \<le> length (takeWhile p cs')"
            "s' = (last_seen (Some c) (take n cs'), drop n cs', g)"
            unfolding Suc.IH by blast
          with Cons True l [of n] show ?thesis
            by (intro exI [of _ "Suc n"]) simp
        next
          assume "s' = (pv, cs, g)"
          then show ?thesis by (intro exI [of _ 0]) (simp add: last_seen_def)
        qed
      next
        assume "\<exists>n. n \<le> Suc hi \<and> n \<le> length (takeWhile p cs)
                  \<and> s' = (last_seen pv (take n cs), drop n cs, g)"
        then obtain n where n: "n \<le> Suc hi" "n \<le> length (takeWhile p cs)"
          "s' = (last_seen pv (take n cs), drop n cs, g)" by blast
        show "s' \<in> set (rep (rx_match (Cls p)) 0 (Suc hi) (pv, cs, g))"
        proof (cases n)
          case 0
          with n show ?thesis by (simp add: last_seen_def)
        next
          case (Suc m)
          with n Cons True have "m \<le> hi" "m \<le> length (takeWhile p cs')"
            "s' = (last_seen (Some c) (take m cs'), drop m cs', g)"
            by (simp_all add: l)
          then have "s' \<in> set (rep (rx_match (Cls p)) 0 hi (Some c, cs', g))"
            unfolding Suc.IH by blast
          with Cons True show ?thesis by simp
        qed
      qed
    qed
  qed
qed

lemma plus_cls_mem:
  "s' \<in> set (rx_match (plus (Cls p)) (pv, cs, g)) \<longleftrightarrow>
     (\<exists>n. 0 < n \<and> n \<le> length (takeWhile p cs)
          \<and> s' = (last_seen pv (take n cs), drop n cs, g))"
proof (cases cs)
  case Nil
  then show ?thesis by (simp add: plus_def)
next
  case (Cons c cs')
  show ?thesis
  proof (cases "p c")
    case False
    with Cons show ?thesis by (simp add: plus_def)
  next
    case True
    have l: "last_seen pv (c # take n cs') = last_seen (Some c) (take n cs')" for n
      by (rule last_seen_Cons)
    have t: "length (takeWhile p cs') \<le> length cs'" by (rule length_takeWhile_le)
    have "s' \<in> set (rx_match (plus (Cls p)) (pv, cs, g)) \<longleftrightarrow>
            (\<exists>m. m \<le> length cs' \<and> m \<le> length (takeWhile p cs')
                 \<and> s' = (last_seen (Some c) (take m cs'), drop m cs', g))"
      using Cons True by (simp add: plus_def rep_cls_mem)
    also have "\<dots> \<longleftrightarrow> (\<exists>m. m \<le> length (takeWhile p cs')
                 \<and> s' = (last_seen pv (take (Suc m) cs), drop (Suc m) cs, g))"
      using t Cons by (auto simp: l intro: order_trans)
    also have "\<dots> \<longleftrightarrow> (\<exists>n. 0 < n \<and> n \<le> length (takeWhile p cs)
          \<and> s' = (last_seen pv (take n cs), drop n cs, g))"
    proof
      assume "\<exists>m. m \<le> length (takeWhile p cs')
                 \<and> s' = (last_seen pv (take (Suc m) cs), drop (Suc m) cs, g)"
      then obtain m where "m \<le> length (takeWhile p cs')"
        "s' = (last_seen pv (take (Suc m) cs), drop (Suc m) cs, g)" by blast
      with Cons True show "\<exists>n. 0 < n \<and> n \<le> length (takeWhile p cs)
          \<and> s' = (last_seen pv (take n cs), drop n cs, g)"
        by (intro exI [of _ "Suc m"]) simp
    next
      assume "\<exists>n. 0 < n \<and> n \<le> length (takeWhile p cs)
          \<and> s' = (last_seen pv (take n cs), drop n cs, g)"
      then obtain n where n: "0 < n" "n \<le> length (takeWhile p cs)"
        "s' = (last_seen pv (take n cs), drop n cs, g)" by blast
      then obtain m where "n = Suc m" by (cases n) auto
      with n Cons True show "\<exists>m. m \<le> length (takeWhile p cs')
                 \<and> s' = (last_seen pv (take (Suc m) cs), drop (Suc m) cs, g)"
        by (intro exI [of _ m]) simp
    qed
    finally show ?thesis .
  qed
qed

lemma starts_not_space:
  assumes "starts_with_ci b (drop n xs)" and "b \<noteq> []" and "\<not> is_space (hd b)"
    and "n \<le> length (takeWhile is_space xs)"
  shows "n = length (takeWhile is_space xs)"
proof (rule ccontr)
  assume "n \<noteq> length (takeWhile is_space xs)"
  with assms(4) have n: "n < length (takeWhile is_space xs)" by simp
  have "length (takeWhile is_space xs) \<le> length xs" by (rule length_takeWhile_le)
  with n have "n < length xs" by simp
  then have d: "drop n xs = xs ! n # drop (Suc n) xs" by (rule Cons_nth_drop_Suc [symmetric])
  have "takeWhile is_space xs ! n \<in> set (takeWhile is_space xs)" using n by (rule nth_mem)
  then have "is_space (takeWhile is_space xs ! n)" by (rule set_takeWhileD [THEN conjunct2])
  then have s: "is_space (xs ! n)" using n by (simp add: takeWhile_nth)
  from assms(2) obtain x k where b: "b = x # k" by (cases b) auto
  from assms(1) have "ci x (xs ! n)" unfolding b d by simp
  then have "is_space (xs ! n) = is_space x" by (rule ci_is_space)
  with s assms(3) show False by (simp add: b)
qed

lemma phrase_mem:
  "s' \<in> set (rx_match (Seq (lit a) (Seq (plus sp) (lit b))) (pv, cs, g)) \<longleftrightarrow>
     starts_with_ci a cs
     \<and> (\<exists>n. 0 < n \<and> n \<le> length (takeWhile is_space (drop (length a) cs))
            \<and> starts_with_ci b (drop n (drop (length a) cs))
            \<and> s' = (last_seen (last_seen (last_seen pv (take (length a) cs))
                                  (take n (drop (length a) cs)))
                         (take (length b) (drop n (drop (length a) cs))),
                       drop (length b) (drop n (drop (length a) cs)), g))"
proof -
  have "s' \<in> set (rx_match (Seq (lit a) (Seq (plus sp) (lit b))) (pv, cs, g)) \<longleftrightarrow>
          (\<exists>s1 \<in> set (rx_match (lit a) (pv, cs, g)).
             \<exists>s2 \<in> set (rx_match (plus sp) s1). s' \<in> set (rx_match (lit b) s2))"
    by auto
  also have "\<dots> \<longleftrightarrow> starts_with_ci a cs
     \<and> (\<exists>s2 \<in> set (rx_match (plus sp)
                          (last_seen pv (take (length a) cs), drop (length a) cs, g)).
           s' \<in> set (rx_match (lit b) s2))"
    by (simp add: rx_match_lit)
  also have "\<dots> \<longleftrightarrow> starts_with_ci a cs
     \<and> (\<exists>n. 0 < n \<and> n \<le> length (takeWhile is_space (drop (length a) cs))
            \<and> s' \<in> set (rx_match (lit b)
                   (last_seen (last_seen pv (take (length a) cs)) (take n (drop (length a) cs)),
                    drop n (drop (length a) cs), g)))"
    unfolding sp_def Bex_def plus_cls_mem by blast
  also have "\<dots> \<longleftrightarrow> starts_with_ci a cs
     \<and> (\<exists>n. 0 < n \<and> n \<le> length (takeWhile is_space (drop (length a) cs))
            \<and> starts_with_ci b (drop n (drop (length a) cs))
            \<and> s' = (last_seen (last_seen (last_seen pv (take (length a) cs))
                                  (take n (drop (length a) cs)))
                         (take (length b) (drop n (drop (length a) cs))),
                       drop (length b) (drop n (drop (length a) cs)), g))"
    unfolding rx_match_lit by (simp del: drop_drop cong: conj_cong) blast
  finally show ?thesis .
qed

lemma phrase_here_lit:
  assumes "a \<noteq> []" and "is_word (hd a)" and "b \<noteq> []" and "is_word (last b)"
    and "\<not> is_space (hd b)"
  shows "(at_boundary pv cs
          \<and> (\<exists>s' \<in> set (rx_match (Seq (lit a) (Seq (plus sp) (lit b))) (pv, cs, g)).
                at_boundary (fst s') (fst (snd s'))))
         = phrase_here a b pv cs"
proof -
  let ?rest = "drop (length a) cs"
  let ?w = "length (takeWhile is_space ?rest)"
  have d: "drop ?w ?rest = dropWhile is_space ?rest" by (rule dropWhile_eq_drop [symmetric])
  have e: "at_boundary (last_seen q (take (length b) xs)) (drop (length b) xs)
             = (\<not> word_after (drop (length b) xs))"
    if "starts_with_ci b xs" for q xs
    using starts_word_before [OF that assms(3,4), of q] by (simp add: at_boundary_def)
  have f: "at_boundary pv cs = (\<not> word_before pv)" if "starts_with_ci a cs"
    using starts_word_after [OF that assms(1,2)] by (simp add: at_boundary_def)
  show ?thesis
  proof
    assume l: "at_boundary pv cs
          \<and> (\<exists>s' \<in> set (rx_match (Seq (lit a) (Seq (plus sp) (lit b))) (pv, cs, g)).
                at_boundary (fst s') (fst (snd s')))"
    then obtain n where a: "starts_with_ci a cs" and n: "0 < n" "n \<le> ?w"
      and b: "starts_with_ci b (drop n ?rest)"
      and x: "at_boundary (last_seen (last_seen (last_seen pv (take (length a) cs))
                                  (take n ?rest)) (take (length b) (drop n ?rest)))
                 (drop (length b) (drop n ?rest))"
      unfolding Bex_def phrase_mem by (auto simp del: drop_drop)
    from starts_not_space [OF b assms(3,5) n(2)] have n': "n = ?w" .
    from n n' have "takeWhile is_space ?rest \<noteq> []" by auto
    moreover from b n' d have b': "starts_with_ci b (dropWhile is_space ?rest)"
      by (simp del: drop_drop)
    moreover from x e [OF b] n' d
    have "\<not> word_after (drop (length b) (dropWhile is_space ?rest))"
      by (simp del: drop_drop)
    moreover from l f [OF a] have "\<not> word_before pv" by simp
    ultimately show "phrase_here a b pv cs" using a by (simp add: phrase_here_def)
  next
    assume r: "phrase_here a b pv cs"
    then have a: "starts_with_ci a cs" and p: "\<not> word_before pv"
      and w: "takeWhile is_space ?rest \<noteq> []"
      and b: "starts_with_ci b (dropWhile is_space ?rest)"
      and x: "\<not> word_after (drop (length b) (dropWhile is_space ?rest))"
      by (simp_all add: phrase_here_def)
    from b d have b': "starts_with_ci b (drop ?w ?rest)" by (simp del: drop_drop)
    let ?s = "(last_seen (last_seen (last_seen pv (take (length a) cs))
                                  (take ?w ?rest)) (take (length b) (drop ?w ?rest)),
               drop (length b) (drop ?w ?rest), g)"
    have "?s \<in> set (rx_match (Seq (lit a) (Seq (plus sp) (lit b))) (pv, cs, g))"
      unfolding phrase_mem using a w b'
      by (intro conjI exI [of _ ?w]) (simp_all del: drop_drop)
    moreover have "at_boundary (fst ?s) (fst (snd ?s))"
      using e [OF b'] x d by (simp del: drop_drop)
    ultimately have "\<exists>s' \<in> set (rx_match (Seq (lit a) (Seq (plus sp) (lit b))) (pv, cs, g)).
                at_boundary (fst s') (fst (snd s'))" by blast
    with f [OF a] p show "at_boundary pv cs
          \<and> (\<exists>s' \<in> set (rx_match (Seq (lit a) (Seq (plus sp) (lit b))) (pv, cs, g)).
                at_boundary (fst s') (fst (snd s')))" by simp
  qed
qed

lemma set_lit_append:
  "set (rx_match (lit (a @ b)) s) = (\<Union>s1 \<in> set (rx_match (lit a) s). set (rx_match (lit b) s1))"
proof (induction a arbitrary: s)
  case Nil
  show ?case by (simp add: lit_Nil)
next
  case (Cons x a)
  show ?case by (simp add: lit_Cons Cons)
qed

lemma rx_match_opt: "rx_match (Rep 0 1 r) s = rx_match r s @ [s]"
proof -
  have "rep (rx_match r) 0 0 = (\<lambda>s. [s])" by (rule ext) simp
  then show ?thesis by simp
qed

lemma opt_word_here:
  assumes "a @ b \<noteq> []" and "is_word (hd (a @ b))" and "is_word (last (a @ b))"
    and "is_word (hd (a @ q @ b))" and "is_word (last (a @ q @ b))"
  shows "(rx_match (Seq Bnd (Seq (lit a) (Seq (Rep 0 1 (lit q)) (Seq (lit b) Bnd))))
            (pv, cs, g) \<noteq> []) =
         (word_here (a @ q @ b) pv cs \<or> word_here (a @ b) pv cs)"
proof -
  let ?bd = "\<lambda>s'. at_boundary (fst s') (fst (snd s'))"
  have n: "a @ q @ b \<noteq> []" using assms(1) by auto
  have "(rx_match (Seq Bnd (Seq (lit a) (Seq (Rep 0 1 (lit q)) (Seq (lit b) Bnd))))
            (pv, cs, g) \<noteq> []) =
        (at_boundary pv cs
         \<and> ((\<exists>s' \<in> set (rx_match (lit (a @ q @ b)) (pv, cs, g)). ?bd s')
            \<or> (\<exists>s' \<in> set (rx_match (lit (a @ b)) (pv, cs, g)). ?bd s')))"
    unfolding bnd_first set_lit_append
    by (simp only: seq_nonempty bnd_nonempty rx_match_opt split: if_splits) auto
  also have "\<dots> = (word_here (a @ q @ b) pv cs \<or> word_here (a @ b) pv cs)"
    using word_here_lit [OF n assms(4,5), of pv cs g] word_here_lit [OF assms(1,2,3), of pv cs g]
    by blast
  finally show ?thesis .
qed

lemma rcc_here:
  "(rx_match (Seq Bnd (Seq (lit ''R'') (Seq (Rep 0 1 (lit ''WY'')) (Seq (lit ''CC'') Bnd))))
      (pv, cs, g) \<noteq> []) = (word_here ''RWYCC'' pv cs \<or> word_here ''RCC'' pv cs)"
  using opt_word_here [of "''R''" "''CC''" "''WY''" pv cs g] by (simp add: is_word_Char)

text \<open>
  The context pattern and the vocabulary pattern of \<open>is_snowtam_like\<close>.
\<close>

lemma context_here:
  "(rx_match CONTEXT_RE (pv, cs, g) \<noteq> []) =
     ((\<exists>k \<in> set [''RWY'', ''RUNWAY'', ''RCC'', ''RWYCC'', ''BRAKING'']. word_here k pv cs)
      \<or> word_start_here ''CONTAMIN'' pv cs)"
proof -
  have a1: "(rx_match (seqs [Bnd, lit ''RWY'', Bnd]) (pv, cs, g) \<noteq> []) = word_here ''RWY'' pv cs"
    unfolding seqs.simps by (rule bounded_lit_here) (simp_all add: is_word_Char)
  have a2: "(rx_match (seqs [Bnd, lit ''RUNWAY'', Bnd]) (pv, cs, g) \<noteq> [])
              = word_here ''RUNWAY'' pv cs"
    unfolding seqs.simps by (rule bounded_lit_here) (simp_all add: is_word_Char)
  have a3: "(rx_match (seqs [Bnd, lit ''R'', Rep 0 1 (lit ''WY''), lit ''CC'', Bnd]) (pv, cs, g)
               \<noteq> []) = (word_here ''RWYCC'' pv cs \<or> word_here ''RCC'' pv cs)"
    unfolding seqs.simps by (rule rcc_here)
  have a4: "(rx_match (seqs [Bnd, lit ''BRAKING'', Bnd]) (pv, cs, g) \<noteq> [])
              = word_here ''BRAKING'' pv cs"
    unfolding seqs.simps by (rule bounded_lit_here) (simp_all add: is_word_Char)
  have a5: "(rx_match (seqs [Bnd, lit ''CONTAMIN'']) (pv, cs, g) \<noteq> [])
              = word_start_here ''CONTAMIN'' pv cs"
    unfolding seqs.simps by (rule word_start_lit) (simp_all add: is_word_Char)
  show ?thesis
    unfolding CONTEXT_RE_def alts_nonempty bex_set_Cons bex_set_Nil a1 a2 a3 a4 a5 by blast
qed

lemma context_has:
  "(re_search CONTEXT_RE t \<noteq> None) = has_context_marker t"
proof -
  have "(re_search CONTEXT_RE t \<noteq> None) =
          somewhere (\<lambda>pv cs.
            (\<exists>k \<in> set [''RWY'', ''RUNWAY'', ''RCC'', ''RWYCC'', ''BRAKING'']. word_here k pv cs)
            \<or> word_start_here ''CONTAMIN'' pv cs) None t"
    unfolding re_search_def by (rule rx_scan_somewhere) (rule context_here)
  then show ?thesis
    by (simp only: somewhere_disj somewhere_bex has_context_marker_def has_word_def
        has_word_start_def)
qed

lemma hint_here:
  "(rx_match SNOW_HINT_RE (pv, cs, g) \<noteq> []) =
     ((\<exists>k \<in> set [''SNOWTAM'', ''RWYCC'', ''RCR'', ''BRAKING'', ''SLUSH'', ''ICE'', ''SNOW'', ''MU'',
                  ''CONTAMIN'']. word_here k pv cs)
      \<or> (\<exists>a \<in> set [''COMPACTED'', ''WET'', ''DRY'']. phrase_here a ''SNOW'' pv cs))"
proof -
  let ?bd = "\<lambda>s'. at_boundary (fst s') (fst (snd s'))"
  let ?w = "\<lambda>k. at_boundary pv cs \<and> (\<exists>s' \<in> set (rx_match (lit k) (pv, cs, g)). ?bd s')"
  let ?p = "\<lambda>a. at_boundary pv cs
              \<and> (\<exists>s' \<in> set (rx_match (Seq (lit a) (Seq (plus sp) (lit ''SNOW''))) (pv, cs, g)).
                    ?bd s')"
  have "(rx_match SNOW_HINT_RE (pv, cs, g) \<noteq> []) =
          ((\<exists>k \<in> set [''SNOWTAM'', ''RWYCC'', ''RCR'', ''BRAKING'', ''SLUSH'', ''ICE'', ''SNOW'',
                       ''MU'', ''CONTAMIN'']. ?w k)
           \<or> (\<exists>a \<in> set [''COMPACTED'', ''WET'', ''DRY'']. ?p a))"
    unfolding SNOW_HINT_RE_def seqs.simps bounded_nonempty grp_bounded set_alts
    by (simp only: set_simps UN_insert UN_empty bex_Un bex_simps Un_empty_right) blast
  also have "\<dots> =
     ((\<exists>k \<in> set [''SNOWTAM'', ''RWYCC'', ''RCR'', ''BRAKING'', ''SLUSH'', ''ICE'', ''SNOW'', ''MU'',
                  ''CONTAMIN'']. word_here k pv cs)
      \<or> (\<exists>a \<in> set [''COMPACTED'', ''WET'', ''DRY'']. phrase_here a ''SNOW'' pv cs))"
  proof -
    have w: "?w k = word_here k pv cs"
      if "k \<in> set [''SNOWTAM'', ''RWYCC'', ''RCR'', ''BRAKING'', ''SLUSH'', ''ICE'', ''SNOW'', ''MU'',
                    ''CONTAMIN'']" for k
      using that by (intro word_here_lit) (auto simp: is_word_Char)
    have p: "?p a = phrase_here a ''SNOW'' pv cs"
      if "a \<in> set [''COMPACTED'', ''WET'', ''DRY'']" for a
      using that by (intro phrase_here_lit) (auto simp: is_word_Char is_space_Char)
    show ?thesis by (intro arg_cong2 [where f = "(\<or>)"] bex_cong refl w p)
  qed
  finally show ?thesis .
qed

lemma hint_has:
  "(re_search SNOW_HINT_RE t \<noteq> None) =
     ((\<exists>k \<in> set [''SNOWTAM'', ''RWYCC'', ''RCR'', ''BRAKING'', ''SLUSH'', ''ICE'', ''SNOW'', ''MU'',
                  ''CONTAMIN'']. has_word k t)
      \<or> (\<exists>a \<in> set [''COMPACTED'', ''WET'', ''DRY'']. has_phrase a ''SNOW'' t))"
proof -
  have "(re_search SNOW_HINT_RE t \<noteq> None) =
          somewhere (\<lambda>pv cs.
            (\<exists>k \<in> set [''SNOWTAM'', ''RWYCC'', ''RCR'', ''BRAKING'', ''SLUSH'', ''ICE'', ''SNOW'',
                         ''MU'', ''CONTAMIN'']. word_here k pv cs)
            \<or> (\<exists>a \<in> set [''COMPACTED'', ''WET'', ''DRY'']. phrase_here a ''SNOW'' pv cs)) None t"
    unfolding re_search_def by (rule rx_scan_somewhere) (rule hint_here)
  then show ?thesis
    by (simp only: somewhere_disj somewhere_bex has_word_def has_phrase_def)
qed

lemma hint_has_vocabulary: "re_search SNOW_HINT_RE t \<noteq> None \<Longrightarrow> has_vocabulary t"
  unfolding hint_has has_vocabulary_def using has_word_is_start [of "''CONTAMIN''" t] by auto

text \<open>The closure pattern.\<close>

lemma closed_tail:
  "(rx_match (Seq Bnd (Seq (Grp 2 (Alt (lit ''CLSD'') (lit ''CLOSED''))) Bnd)) (p, c, g) \<noteq> []) =
     (\<exists>k \<in> set [''CLSD'', ''CLOSED'']. word_here k p c)"
proof -
  have w: "\<forall>k \<in> set [''CLSD'', ''CLOSED'']. k \<noteq> [] \<and> is_word (hd k) \<and> is_word (last k)"
    by (simp add: is_word_Char)
  from words_here [OF w, of 2 p c g] show ?thesis by simp
qed

lemma grp_mem:
  "(\<exists>s1 \<in> set (rx_match (Grp n (Alt (lit a) (lit b))) (pv, cs, g)). P (fst s1) (fst (snd s1))) =
     (\<exists>k \<in> set [a, b]. starts_with_ci k cs
        \<and> P (last_seen pv (take (length k) cs)) (drop (length k) cs))"
  by (auto simp: rx_match_lit split: if_splits)

lemma rep_any_mem:
  "(\<exists>s2 \<in> set (rx_match (Rep 0 24 (Cls p)) s1). P (fst s2) (fst (snd s2))) =
     (\<exists>n \<in> set [0 ..< 25]. n \<le> length (takeWhile p (fst (snd s1)))
        \<and> P (last_seen (fst s1) (take n (fst (snd s1)))) (drop n (fst (snd s1))))"
proof (cases s1)
  case (fields pv cs g)
  have "(\<exists>s2 \<in> set (rx_match (Rep 0 24 (Cls p)) (pv, cs, g)). P (fst s2) (fst (snd s2))) =
          (\<exists>n. n \<le> 24 \<and> n \<le> length (takeWhile p cs)
             \<and> P (last_seen pv (take n cs)) (drop n cs))"
    unfolding Bex_def rx_match.simps rep_cls_mem by auto
  also have "\<dots> = (\<exists>n \<in> set [0 ..< 25]. n \<le> length (takeWhile p cs)
             \<and> P (last_seen pv (take n cs)) (drop n cs))"
    by (auto simp: less_Suc_eq_le [symmetric] simp del: upt_Suc)
  finally show ?thesis by (simp add: fields del: upt_Suc rx_match.simps)
qed

lemma closed_tail':
  "(rx_match (Seq Bnd (Seq (Grp 2 (Alt (lit ''CLSD'') (lit ''CLOSED''))) Bnd)) s2 \<noteq> []) =
     (\<exists>k \<in> set [''CLSD'', ''CLOSED'']. word_here k (fst s2) (fst (snd s2)))"
  by (cases s2) (simp only: closed_tail fst_conv snd_conv)

lemma chain_nonempty:
  "(rx_match (Seq Bnd (Seq a (Seq b t))) (pv, cs, g) \<noteq> []) =
     (at_boundary pv cs
      \<and> (\<exists>s1 \<in> set (rx_match a (pv, cs, g)). \<exists>s2 \<in> set (rx_match b s1). rx_match t s2 \<noteq> []))"
  by auto

lemma seq3_nonempty:
  "(rx_match (Seq a (Seq b (Seq c d))) s \<noteq> []) =
     (\<exists>s' \<in> set (rx_match (Seq a (Seq b c)) s). rx_match d s' \<noteq> [])"
  by auto

lemma runway_closed_here:
  "(rx_match (seqs [Bnd, Grp 1 (Alt (lit ''RWY'') (lit ''RUNWAY'')), Rep 0 24 (Cls any_char),
                    Bnd, Grp 2 (Alt (lit ''CLSD'') (lit ''CLOSED'')), Bnd]) (pv, cs, g) \<noteq> []) =
     (\<exists>k \<in> set [''RWY'', ''RUNWAY''].
         \<not> word_before pv \<and> starts_with_ci k cs
         \<and> (\<exists>n \<in> set [0 ..< 25].
               n \<le> length (takeWhile any_char (drop (length k) cs))
               \<and> (\<exists>c \<in> set [''CLSD'', ''CLOSED''].
                     word_here c
                       (last_seen (last_seen pv (take (length k) cs))
                          (take n (drop (length k) cs)))
                       (drop n (drop (length k) cs)))))"
proof -
  let ?P = "\<lambda>p c. \<exists>n \<in> set [0 ..< 25]. n \<le> length (takeWhile any_char c)
              \<and> (\<exists>k \<in> set [''CLSD'', ''CLOSED'']. word_here k (last_seen p (take n c)) (drop n c))"
  have b: "at_boundary pv cs = (\<not> word_before pv)"
    if "k \<in> set [''RWY'', ''RUNWAY'']" "starts_with_ci k cs" for k
  proof -
    from that(1) have "k \<noteq> []" "is_word (hd k)" by (auto simp: is_word_Char)
    from starts_word_after [OF that(2) this] show ?thesis by (simp add: at_boundary_def)
  qed
  have "(rx_match (seqs [Bnd, Grp 1 (Alt (lit ''RWY'') (lit ''RUNWAY'')), Rep 0 24 (Cls any_char),
                    Bnd, Grp 2 (Alt (lit ''CLSD'') (lit ''CLOSED'')), Bnd]) (pv, cs, g) \<noteq> []) =
        (at_boundary pv cs
         \<and> (\<exists>k \<in> set [''RWY'', ''RUNWAY'']. starts_with_ci k cs
               \<and> ?P (last_seen pv (take (length k) cs)) (drop (length k) cs)))"
    unfolding seqs.simps chain_nonempty closed_tail'
      rep_any_mem [where P = "\<lambda>p c. \<exists>k \<in> set [''CLSD'', ''CLOSED'']. word_here k p c"]
      grp_mem [where P = ?P] ..
  also have "\<dots> = (\<exists>k \<in> set [''RWY'', ''RUNWAY'']. \<not> word_before pv \<and> starts_with_ci k cs
               \<and> ?P (last_seen pv (take (length k) cs)) (drop (length k) cs))"
    using b by blast
  finally show ?thesis .
qed

lemma aerodrome_closed_here:
  "(rx_match (seqs [Bnd, lit ''AERODROME'', plus sp, lit ''CLSD'', Bnd]) (pv, cs, g) \<noteq> []) =
     phrase_here ''AERODROME'' ''CLSD'' pv cs"
proof -
  have "(rx_match (seqs [Bnd, lit ''AERODROME'', plus sp, lit ''CLSD'', Bnd]) (pv, cs, g) \<noteq> []) =
          (at_boundary pv cs
           \<and> (\<exists>s' \<in> set (rx_match (Seq (lit ''AERODROME'') (Seq (plus sp) (lit ''CLSD'')))
                             (pv, cs, g)).
                 at_boundary (fst s') (fst (snd s'))))"
    unfolding seqs.simps bnd_first
    by (simp only: seq3_nonempty bnd_nonempty split: if_splits) simp
  also have "\<dots> = phrase_here ''AERODROME'' ''CLSD'' pv cs"
    by (rule phrase_here_lit) (simp_all add: is_word_Char is_space_Char)
  finally show ?thesis .
qed

lemma closure_pattern_here:
  "(rx_match RUNWAY_CLOSED_RE (pv, cs, g) \<noteq> []) = closure_here pv cs"
proof -
  have alt: "(rx_match (Alt a b) (pv, cs, g) \<noteq> [])
          = (rx_match a (pv, cs, g) \<noteq> [] \<or> rx_match b (pv, cs, g) \<noteq> [])" for a b
    by simp
  show ?thesis
    unfolding RUNWAY_CLOSED_RE_def closure_here_def alt runway_closed_here aerodrome_closed_here ..
qed

lemma closure_has: "(re_search RUNWAY_CLOSED_RE t \<noteq> None) = has_closure t"
  unfolding re_search_def has_closure_def by (rule rx_scan_somewhere) (rule closure_pattern_here)

text \<open>The whole words of the sample texts.\<close>

lemmas spec_eval = has_word_def has_word_start_def has_phrase_def word_here_def
  word_start_here_def phrase_here_def has_vocabulary_def has_context_marker_def
  ci_def word_before_def word_after_def lower_char_Char is_word_Char is_upper_ascii_Char
  is_space_Char

lemma spec_snow_town:
  "has_word ''SNOW'' ''HEAVY SNOW IN TOWN'' \<and> has_vocabulary ''HEAVY SNOW IN TOWN''
   \<and> \<not> has_context_marker ''HEAVY SNOW IN TOWN''
   \<and> \<not> has_word ''SNOWTAM'' ''HEAVY SNOW IN TOWN''"
  by (simp add: spec_eval)

lemma spec_scenario:
  "has_vocabulary ''SNOWTAM 0123 RWYCC 5/5/4 BRAKING ACTION GOOD''
   \<and> has_context_marker ''SNOWTAM 0123 RWYCC 5/5/4 BRAKING ACTION GOOD''"
  by (simp add: spec_eval)

lemma spec_snowtam:
  "has_vocabulary ''SNOWTAM 0123'' \<and> \<not> has_context_marker ''SNOWTAM 0123''
   \<and> has_word ''SNOWTAM'' ''SNOWTAM 0123''"
  by (simp add: spec_eval)

lemma spec_slush:
  "has_word ''MODERATE'' ''TWY A SLUSH MODERATE'' \<and> has_word ''SLUSH'' ''TWY A SLUSH MODERATE''
   \<and> \<not> has_word ''POOR'' ''TWY A SLUSH MODERATE''
   \<and> \<not> has_word ''UNUSABLE'' ''TWY A SLUSH MODERATE''
   \<and> \<not> has_word ''UNSAFE'' ''TWY A SLUSH MODERATE''"
  by (simp add: spec_eval)

lemma spec_unsafe:
  "has_word ''UNSAFE'' ''APRON ICE UNSAFE'' \<and> has_word ''ICE'' ''APRON ICE UNSAFE''"
  by (simp add: spec_eval)

section \<open>Severity scoring\<close>

lemma fold_min_Min: "fold min vs v = Min (set (v # vs))"
  for v :: int
  by (rule Min.set_eq_fold [symmetric])

lemma extract_rwycc_values_range:
  "v \<in> set (extract_rwycc_values t) \<Longrightarrow> 0 \<le> v \<and> v \<le> 6"
  by (auto simp: extract_rwycc_values_def Let_def split: option.splits)

lemma severity_with_codes:
  assumes "re_search RUNWAY_CLOSED_RE t = None" and "extract_rwycc_values t \<noteq> []"
  shows "severity_from_text t =
           (if Min (set (extract_rwycc_values t)) \<le> 1 then ''red''
            else if Min (set (extract_rwycc_values t)) \<le> 3 then ''orange'' else ''yellow'',
            \<lparr>rwycc = Some (extract_rwycc_values t), braking = None, closed = False,
             ev_keywords = []\<rparr>)"
proof -
  from assms(2) obtain v vs where e: "extract_rwycc_values t = v # vs"
    by (cases "extract_rwycc_values t") auto
  show ?thesis
    unfolding severity_from_text_def e
    by (simp add: assms(1) Let_def fold_min_Min del: set_simps Min_insert)
qed

lemma keyword_fallback_fst:
  "fst (keyword_fallback t ev) =
     (if re_search RED_WORDS_RE t \<noteq> None then ''red''
      else if re_search ORANGE_WORDS_RE t \<noteq> None then ''orange'' else ''yellow'')"
  by (simp add: keyword_fallback_def Let_def)

lemma severity_from_text_cases:
  "fst (severity_from_text t) = ''red'' \<or> fst (severity_from_text t) = ''orange''
   \<or> fst (severity_from_text t) = ''yellow''"
  by (simp add: severity_from_text_def keyword_fallback_fst Let_def
      split: list.splits option.splits)

text \<open>
  Claim C4.  The closure pattern matches a text exactly when the text has a closure in
  the sense above, and such a text is scored \<open>red\<close> with \<open>closed\<close> true in the evidence
  and nothing else recorded: the codes, the braking action and the keywords of the text
  are not looked at.
\<close>

theorem closure_is_red:
  "(re_search RUNWAY_CLOSED_RE t \<noteq> None) = has_closure t
   \<and> (has_closure t \<longrightarrow>
        severity_from_text t =
          (''red'', \<lparr>rwycc = None, braking = None, closed = True, ev_keywords = []\<rparr>))"
proof (intro conjI impI)
  show "(re_search RUNWAY_CLOSED_RE t \<noteq> None) = has_closure t" by (rule closure_has)
  show "severity_from_text t =
          (''red'', \<lparr>rwycc = None, braking = None, closed = True, ev_keywords = []\<rparr>)"
    if "has_closure t"
  proof -
    from that have "re_search RUNWAY_CLOSED_RE t \<noteq> None" by (simp only: closure_has)
    then show ?thesis by (simp add: severity_from_text_def)
  qed
qed

text \<open>
  The theorem at \<open>RWY 09 CLSD\<close>, at \<open>AERODROME CLSD\<close>, and at a text that also reports
  the condition code 0.
\<close>

theorem closure_is_red_witness:
  "has_closure ''RWY 09 CLSD''
   \<and> severity_from_text ''RWY 09 CLSD'' =
       (''red'', \<lparr>rwycc = None, braking = None, closed = True, ev_keywords = []\<rparr>)
   \<and> has_closure ''AERODROME CLSD''
   \<and> severity_from_text ''AERODROME CLSD'' =
       (''red'', \<lparr>rwycc = None, braking = None, closed = True, ev_keywords = []\<rparr>)
   \<and> has_closure ''RWY 09 CLSD RWYCC 0''
   \<and> severity_from_text ''RWY 09 CLSD RWYCC 0'' =
       (''red'', \<lparr>rwycc = None, braking = None, closed = True, ev_keywords = []\<rparr>)"
  using closure_is_red [of "''RWY 09 CLSD''"] closure_is_red [of "''AERODROME CLSD''"]
    closure_is_red [of "''RWY 09 CLSD RWYCC 0''"]
    closed_rwy_09_clsd closed_aerodrome_clsd closed_with_rwycc
  by simp

text \<open>
  Claim C3, as the specification states it: every text containing \<open>RWYCC 0\<close>, or from
  which a code of at most 1 is extracted, is scored \<open>red\<close> with the code in the codes list
  of the evidence.  In \<open>RWY 09 CLSD RWYCC 0\<close> the code 0 is extracted, but the closure
  check returns first and the evidence has no codes list.
\<close>

theorem rwycc_zero_hidden_by_closure:
  "extract_rwycc_values ''RWY 09 CLSD RWYCC 0'' = [0]
   \<and> severity_from_text ''RWY 09 CLSD RWYCC 0'' =
       (''red'', \<lparr>rwycc = None, braking = None, closed = True, ev_keywords = []\<rparr>)"
  by (simp add: extract_with_closure severity_from_text_def closed_with_rwycc)

text \<open>
  Claim C3, amended.  For a text that matches no closure pattern and from which a code of
  at most 1 is extracted, the severity is \<open>red\<close> and the codes list of the evidence is the
  list of the extracted codes, which holds that code.
\<close>

theorem rwycc_at_most_one_is_red:
  assumes "re_search RUNWAY_CLOSED_RE t = None" and "v \<in> set (extract_rwycc_values t)"
    and "v \<le> 1"
  shows "severity_from_text t =
           (''red'', \<lparr>rwycc = Some (extract_rwycc_values t), braking = None, closed = False,
                      ev_keywords = []\<rparr>)"
proof -
  from assms(2) have n: "extract_rwycc_values t \<noteq> []" by auto
  have "Min (set (extract_rwycc_values t)) \<le> v" using assms(2) by simp
  with assms(3) have "Min (set (extract_rwycc_values t)) \<le> 1" by simp
  with severity_with_codes [OF assms(1) n] show ?thesis by simp
qed

text \<open>The amended statement at \<open>RWYCC 0\<close>.\<close>

theorem rwycc_at_most_one_is_red_witness:
  "re_search RUNWAY_CLOSED_RE ''RWYCC 0'' = None
   \<and> (0::int) \<in> set (extract_rwycc_values ''RWYCC 0'') \<and> (0::int) \<le> 1
   \<and> severity_from_text ''RWYCC 0'' =
       (''red'', \<lparr>rwycc = Some [0], braking = None, closed = False, ev_keywords = []\<rparr>)"
  using rwycc_at_most_one_is_red [of "''RWYCC 0''" 0]
  by (simp add: closed_rwycc_0 extract_rwycc_0)

text \<open>
  Claim C5.  For a text that matches no closure pattern and from which codes are
  extracted, the severity follows the least extracted code: \<open>red\<close> up to 1, \<open>orange\<close> up
  to 3, \<open>yellow\<close> above.  The extracted codes all lie between 0 and 6 (other values parsed
  are dropped), so these are the ranges 0 to 1, 2 to 3 and 4 to 6.  The evidence holds
  the extracted codes and no braking action, whatever the text says about braking: the
  codes are looked at first.
\<close>

theorem min_rwycc_decides:
  assumes "re_search RUNWAY_CLOSED_RE t = None" and "extract_rwycc_values t \<noteq> []"
  shows "severity_from_text t =
           (if Min (set (extract_rwycc_values t)) \<le> 1 then ''red''
            else if Min (set (extract_rwycc_values t)) \<le> 3 then ''orange'' else ''yellow'',
            \<lparr>rwycc = Some (extract_rwycc_values t), braking = None, closed = False,
             ev_keywords = []\<rparr>)
         \<and> (\<forall>v \<in> set (extract_rwycc_values t). 0 \<le> v \<and> v \<le> 6)
         \<and> 0 \<le> Min (set (extract_rwycc_values t))
         \<and> Min (set (extract_rwycc_values t)) \<le> 6"
proof -
  have "Min (set (extract_rwycc_values t)) \<in> set (extract_rwycc_values t)"
    using assms(2) by (intro Min_in) auto
  then have "0 \<le> Min (set (extract_rwycc_values t)) \<and> Min (set (extract_rwycc_values t)) \<le> 6"
    by (rule extract_rwycc_values_range)
  with severity_with_codes [OF assms] extract_rwycc_values_range show ?thesis by blast
qed

text \<open>
  The theorem at the scenario of the specification, a text in which the braking pattern
  matches too; and the codes 7 and 9 dropped from \<open>RWYCC 7/3/9\<close>.
\<close>

theorem min_rwycc_decides_witness:
  "re_search RUNWAY_CLOSED_RE ''SNOWTAM 0123 RWYCC 5/5/4 BRAKING ACTION GOOD'' = None
   \<and> extract_rwycc_values ''SNOWTAM 0123 RWYCC 5/5/4 BRAKING ACTION GOOD'' = [5, 5, 4]
   \<and> re_search BRAKING_RE ''SNOWTAM 0123 RWYCC 5/5/4 BRAKING ACTION GOOD'' \<noteq> None
   \<and> severity_from_text ''SNOWTAM 0123 RWYCC 5/5/4 BRAKING ACTION GOOD'' =
       (''yellow'', \<lparr>rwycc = Some [5, 5, 4], braking = None, closed = False,
                     ev_keywords = []\<rparr>)
   \<and> extract_rwycc_values ''RWYCC 7/3/9'' = [3]"
  using min_rwycc_decides [of "''SNOWTAM 0123 RWYCC 5/5/4 BRAKING ACTION GOOD''"]
  by (simp add: closed_scenario extract_scenario braking_scenario extract_discards)

lemma keyword_fallback_words:
  "keyword_fallback t ev =
     (if \<exists>k \<in> set [''POOR'', ''UNUSABLE'', ''UNSAFE'']. has_word k t then ''red''
      else if \<exists>k \<in> set [''MEDIUM'', ''MODERATE'']. has_word k t then ''orange'' else ''yellow'',
      ev\<lparr>ev_keywords := filter (\<lambda>k. has_word k t) keyword_list\<rparr>)"
proof -
  have "filter (\<lambda>k. re_search (word_re k) t \<noteq> None) keyword_list
          = filter (\<lambda>k. has_word k t) keyword_list"
    by (rule filter_cong [OF refl]) (rule keyword_has_word)
  then show ?thesis
    unfolding keyword_fallback_def red_words_have orange_words_have by (simp add: Let_def)
qed

text \<open>
  Claim C9.  The severity returned for any text is \<open>red\<close>, \<open>orange\<close> or \<open>yellow\<close>, never
  \<open>green\<close>.  The keyword fallback gives \<open>red\<close> when \<open>POOR\<close>, \<open>UNUSABLE\<close> or \<open>UNSAFE\<close>
  stands in the text as a whole word, else \<open>orange\<close> when \<open>MEDIUM\<close> or \<open>MODERATE\<close> does,
  else \<open>yellow\<close>, and it records the keywords that stand in the text as whole words; it
  is what the function returns for a text with no closure, no code and no braking action.
\<close>

theorem severity_red_orange_yellow:
  "fst (severity_from_text t) \<in> {''red'', ''orange'', ''yellow''}
   \<and> fst (severity_from_text t) \<noteq> ''green''
   \<and> keyword_fallback t ev =
       (if \<exists>k \<in> set [''POOR'', ''UNUSABLE'', ''UNSAFE'']. has_word k t then ''red''
        else if \<exists>k \<in> set [''MEDIUM'', ''MODERATE'']. has_word k t then ''orange'' else ''yellow'',
        ev\<lparr>ev_keywords := filter (\<lambda>k. has_word k t) keyword_list\<rparr>)
   \<and> (re_search RUNWAY_CLOSED_RE t = None \<longrightarrow> extract_rwycc_values t = [] \<longrightarrow>
        re_search BRAKING_RE t = None \<longrightarrow>
        severity_from_text t =
          keyword_fallback t \<lparr>rwycc = None, braking = None, closed = False, ev_keywords = []\<rparr>)"
proof (intro conjI impI)
  show "fst (severity_from_text t) \<in> {''red'', ''orange'', ''yellow''}"
    using severity_from_text_cases [of t] by auto
  show "fst (severity_from_text t) \<noteq> ''green''"
    using severity_from_text_cases [of t] by auto
  show "keyword_fallback t ev =
       (if \<exists>k \<in> set [''POOR'', ''UNUSABLE'', ''UNSAFE'']. has_word k t then ''red''
        else if \<exists>k \<in> set [''MEDIUM'', ''MODERATE'']. has_word k t then ''orange'' else ''yellow'',
        ev\<lparr>ev_keywords := filter (\<lambda>k. has_word k t) keyword_list\<rparr>)"
    by (rule keyword_fallback_words)
  show "severity_from_text t =
          keyword_fallback t \<lparr>rwycc = None, braking = None, closed = False, ev_keywords = []\<rparr>"
    if "re_search RUNWAY_CLOSED_RE t = None" "extract_rwycc_values t = []"
      "re_search BRAKING_RE t = None"
    using that by (simp add: severity_from_text_def)
qed

text \<open>
  The theorem at three texts that reach the fallback: one with \<open>MODERATE\<close>, one with
  \<open>UNSAFE\<close>, and the empty text.
\<close>

theorem severity_red_orange_yellow_witness:
  "re_search RUNWAY_CLOSED_RE ''TWY A SLUSH MODERATE'' = None
   \<and> extract_rwycc_values ''TWY A SLUSH MODERATE'' = []
   \<and> re_search BRAKING_RE ''TWY A SLUSH MODERATE'' = None
   \<and> has_word ''MODERATE'' ''TWY A SLUSH MODERATE''
   \<and> severity_from_text ''TWY A SLUSH MODERATE'' =
       (''orange'', \<lparr>rwycc = None, braking = None, closed = False, ev_keywords = [''SLUSH'']\<rparr>)
   \<and> has_word ''UNSAFE'' ''APRON ICE UNSAFE''
   \<and> severity_from_text ''APRON ICE UNSAFE'' =
       (''red'', \<lparr>rwycc = None, braking = None, closed = False, ev_keywords = [''ICE'']\<rparr>)
   \<and> severity_from_text [] =
       (''yellow'', \<lparr>rwycc = None, braking = None, closed = False, ev_keywords = []\<rparr>)"
  using severity_red_orange_yellow [of "''TWY A SLUSH MODERATE''"]
    severity_red_orange_yellow [of "''APRON ICE UNSAFE''"] severity_red_orange_yellow [of "[]"]
    spec_slush spec_unsafe
  by (simp add: closed_slush extract_slush braking_slush fallback_slush
        closed_unsafe extract_unsafe braking_unsafe fallback_unsafe
        closed_empty extract_empty braking_empty fallback_empty)

section \<open>Relevance\<close>

lemma is_snowtam_like_patterns:
  "is_snowtam_like t \<longleftrightarrow>
     re_search SNOW_HINT_RE t \<noteq> None
     \<and> (re_search CONTEXT_RE t \<noteq> None \<or> re_search SNOWTAM_RE t \<noteq> None)"
proof (cases "t = []")
  case True
  then show ?thesis by (simp add: is_snowtam_like_def hint_empty)
next
  case False
  then show ?thesis by (simp add: is_snowtam_like_def)
qed

text \<open>
  Claim C6.  \<open>is_snowtam_like\<close> is true exactly when a word or a phrase of the vocabulary
  stands in the text as a whole word (the words matched are those of the specification
  with \<open>CONTAMIN\<close> itself for the terms it prefixes) and a context marker or the word
  \<open>SNOWTAM\<close> does.  So it is true only if the text has a word of the vocabulary of the
  specification and either a context marker or the word \<open>SNOWTAM\<close>; and a text with
  neither a context marker nor the word \<open>SNOWTAM\<close> is not relevant, whatever else it
  holds.
\<close>

theorem relevant_only_with_vocabulary_and_context:
  "(is_snowtam_like t \<longleftrightarrow>
      ((\<exists>k \<in> set [''SNOWTAM'', ''RWYCC'', ''RCR'', ''BRAKING'', ''SLUSH'', ''ICE'', ''SNOW'', ''MU'',
                   ''CONTAMIN'']. has_word k t)
       \<or> (\<exists>a \<in> set [''COMPACTED'', ''WET'', ''DRY'']. has_phrase a ''SNOW'' t))
      \<and> (has_context_marker t \<or> has_word ''SNOWTAM'' t))
   \<and> (is_snowtam_like t \<longrightarrow> has_vocabulary t \<and> (has_context_marker t \<or> has_word ''SNOWTAM'' t))
   \<and> (\<not> has_context_marker t \<longrightarrow> \<not> has_word ''SNOWTAM'' t \<longrightarrow> \<not> is_snowtam_like t)"
proof (intro conjI impI)
  show "is_snowtam_like t \<longleftrightarrow>
      ((\<exists>k \<in> set [''SNOWTAM'', ''RWYCC'', ''RCR'', ''BRAKING'', ''SLUSH'', ''ICE'', ''SNOW'', ''MU'',
                   ''CONTAMIN'']. has_word k t)
       \<or> (\<exists>a \<in> set [''COMPACTED'', ''WET'', ''DRY'']. has_phrase a ''SNOW'' t))
      \<and> (has_context_marker t \<or> has_word ''SNOWTAM'' t)"
    unfolding is_snowtam_like_patterns hint_has context_has snowtam_has_word ..
  show "has_vocabulary t" if "is_snowtam_like t"
    using that unfolding is_snowtam_like_patterns by (intro hint_has_vocabulary) simp
  show "has_context_marker t \<or> has_word ''SNOWTAM'' t" if "is_snowtam_like t"
    using that unfolding is_snowtam_like_patterns context_has snowtam_has_word by simp
  show "\<not> is_snowtam_like t" if "\<not> has_context_marker t" "\<not> has_word ''SNOWTAM'' t"
    using that unfolding is_snowtam_like_patterns context_has snowtam_has_word by simp
qed

text \<open>
  The theorem at a text with \<open>SNOW\<close> and no context (not relevant), at the scenario of
  the specification (relevant by its context), and at a text relevant by the word
  \<open>SNOWTAM\<close> alone.
\<close>

theorem relevant_only_with_vocabulary_and_context_witness:
  "has_word ''SNOW'' ''HEAVY SNOW IN TOWN'' \<and> has_vocabulary ''HEAVY SNOW IN TOWN''
   \<and> \<not> has_context_marker ''HEAVY SNOW IN TOWN''
   \<and> \<not> has_word ''SNOWTAM'' ''HEAVY SNOW IN TOWN''
   \<and> \<not> is_snowtam_like ''HEAVY SNOW IN TOWN''
   \<and> is_snowtam_like ''SNOWTAM 0123 RWYCC 5/5/4 BRAKING ACTION GOOD''
   \<and> has_vocabulary ''SNOWTAM 0123 RWYCC 5/5/4 BRAKING ACTION GOOD''
   \<and> has_context_marker ''SNOWTAM 0123 RWYCC 5/5/4 BRAKING ACTION GOOD''
   \<and> is_snowtam_like ''SNOWTAM 0123''
   \<and> has_vocabulary ''SNOWTAM 0123'' \<and> \<not> has_context_marker ''SNOWTAM 0123''
   \<and> has_word ''SNOWTAM'' ''SNOWTAM 0123''"
  using relevant_only_with_vocabulary_and_context [of "''HEAVY SNOW IN TOWN''"]
    relevant_only_with_vocabulary_and_context [of "''SNOWTAM 0123 RWYCC 5/5/4 BRAKING ACTION GOOD''"]
    relevant_only_with_vocabulary_and_context [of "''SNOWTAM 0123''"]
    spec_snow_town spec_scenario spec_snowtam
  by (simp add: is_snowtam_like_patterns hint_scenario context_scenario hint_snowtam
        snowtam_snowtam)

section \<open>The loop over the batches\<close>

lemma foldl_upd_apply:
  "foldl (\<lambda>out k. out(k \<mapsto> f k)) out ks k' = (if k' \<in> set ks then Some (f k') else out k')"
  by (induction ks arbitrary: out) auto

lemma process_batch_apply:
  "process_batch e prev out (bi, batch) icao =
     (if icao \<in> set batch then
        Some (case fetch e bi batch of
                Inl (tname, msg) \<Rightarrow> failed_status prev (tname @ '': '' @ msg) icao
              | Inr notams \<Rightarrow>
                  airport_status e prev icao
                    (case group_by_icao batch notams icao of None \<Rightarrow> [] | Some l \<Rightarrow> l))
      else out icao)"
  by (simp add: process_batch_def foldl_upd_apply Let_def split: sum.splits prod.splits)

lemma airport_status_fields:
  "loaded (airport_status e prev icao ns) = True"
  "error (airport_status e prev icao ns) = None"
  "hash (airport_status e prev icao ns) \<noteq> None"
  "changed (airport_status e prev icao ns) =
     (prev_field prev icao hash \<noteq> None \<and>
      prev_field prev icao hash \<noteq> hash (airport_status e prev icao ns))"
  "last_change_utc (airport_status e prev icao ns) =
     (if changed (airport_status e prev icao ns) then Some (now e)
      else prev_field prev icao last_change_utc)"
  "\<not> has_snowtam (airport_status e prev icao ns) \<Longrightarrow>
     severity (airport_status e prev icao ns) = ''green''"
  by (simp_all add: airport_status_def Let_def split: prod.splits)

lemma failed_status_fields:
  "error (failed_status prev err icao) = Some err"
  "loaded (failed_status prev err icao) = True"
  "has_snowtam (failed_status prev err icao) = False"
  "severity (failed_status prev err icao) = ''gray''"
  by (simp_all add: failed_status_def)

lemma foldl_invariant:
  "I out \<Longrightarrow> (\<And>o' b. I o' \<Longrightarrow> I (f o' b)) \<Longrightarrow> I (foldl f out bs)"
  by (induction bs arbitrary: out) auto

text \<open>
  Every record of the snapshot was written either by the failure branch or by the
  success branch of the loop, for its own identifier.
\<close>

lemma build_status_records:
  assumes "build_status e prev icao_list = Inr snap" and "airports snap icao = Some r"
  shows "(\<exists>err. r = failed_status prev err icao) \<or> (\<exists>ns. r = airport_status e prev icao ns)"
proof -
  let ?I = "\<lambda>out. \<forall>k s. out k = Some s \<longrightarrow>
              (\<exists>err. s = failed_status prev err k) \<or> (\<exists>ns. s = airport_status e prev k ns)"
  have step: "?I (process_batch e prev o' b)" if "?I o'" for o' b
  proof (cases b)
    case (Pair bi batch)
    show ?thesis
      unfolding Pair using that
      by (auto simp: process_batch_apply split: if_splits sum.splits prod.splits)
  qed
  have inv: "?I (foldl (process_batch e prev) Map.empty bs)" for bs
  proof (rule foldl_invariant [where I = ?I])
    show "?I Map.empty" by simp
  next
    fix o' b
    assume "?I o'"
    then show "?I (process_batch e prev o' b)" by (rule step)
  qed
  from assms(1) obtain bs where "airports snap = foldl (process_batch e prev) Map.empty bs"
    by (auto simp: build_status_def split: sum.splits)
  with inv [of bs] have "?I (airports snap)" by simp
  with assms(2) show ?thesis by blast
qed

lemma successful_record:
  assumes "build_status e prev icao_list = Inr snap" and "airports snap icao = Some r"
    and "error r = None"
  obtains ns where "r = airport_status e prev icao ns"
  using build_status_records [OF assms(1,2)] assms(3) by (auto simp: failed_status_fields)

lemma airport_changed_iff:
  "changed (airport_status e prev icao ns) \<longleftrightarrow>
     (\<exists>h. prev_field prev icao hash = Some h \<and> hash (airport_status e prev icao ns) \<noteq> Some h)"
  by (subst airport_status_fields(4)) auto

lemma airport_first_seen:
  "prev_field prev icao hash = None \<Longrightarrow> \<not> changed (airport_status e prev icao ns)"
  by (simp add: airport_changed_iff)

lemma prev_field_None: "prev icao = None \<Longrightarrow> prev_field prev icao key = None"
  by (simp add: prev_field_def)




lemma chunk_positive: "0 < n \<Longrightarrow> \<exists>bs. chunk lst n = Inr bs"
  by (simp add: chunk_def)






subsection \<open>The sample runs, evaluated\<close>

lemmas sample_defs = sample_env_def sample_snapshot_def sample_prev_def sample_status_def
  fetch_nothing_def fetch_first_fails_def

lemma airport_status_no_notams:
  "airport_status e prev icao [] =
     \<lparr>loaded = True, has_snowtam = False, severity = ''green'',
      changed = (prev_field prev icao hash \<noteq> None
                 \<and> prev_field prev icao hash \<noteq> Some ''NO_SNOWTAM''),
      last_change_utc = (if prev_field prev icao hash \<noteq> None
                            \<and> prev_field prev icao hash \<noteq> Some ''NO_SNOWTAM''
                         then Some (now e) else prev_field prev icao last_change_utc),
      error = None, items = [], evidence = None, hash = Some ''NO_SNOWTAM''\<rparr>"
  by (simp add: airport_status_def Let_def)

lemma group_by_icao_Nil: "group_by_icao batch [] = map_of (map (\<lambda>icao. (icao, [])) batch)"
  by (simp add: group_by_icao_def)

text \<open>
  A run over \<open>A\<close> and \<open>C\<close> in which the service returns no notice: \<open>A\<close> had the
  fingerprint \<open>h1\<close> and now has \<open>NO_SNOWTAM\<close>, so it changed; \<open>C\<close> had \<open>NO_SNOWTAM\<close>
  already.
\<close>

lemma run_nothing:
  "build_status (sample_env fetch_nothing) sample_prev [''A'', ''C''] =
     Inr (sample_snapshot
       [''A'' \<mapsto> \<lparr>loaded = True, has_snowtam = False, severity = ''green'', changed = True,
                  last_change_utc = Some ''2024-01-02T03:04:05Z'', error = None, items = [],
                  evidence = None, hash = Some ''NO_SNOWTAM''\<rparr>,
        ''C'' \<mapsto> \<lparr>loaded = True, has_snowtam = False, severity = ''green'', changed = False,
                  last_change_utc = Some ''2023-12-31T06:00:00Z'', error = None, items = [],
                  evidence = None, hash = Some ''NO_SNOWTAM''\<rparr>])"
  by (simp add: sample_defs build_status_def chunk_def process_batch_def prev_field_def
        airport_status_no_notams group_by_icao_Nil)

text \<open>
  A run over \<open>A\<close>, \<open>B\<close>, \<open>C\<close> and \<open>D\<close> in which the fetch of the first batch raises and
  that of the second returns no notice, and a run over \<open>A\<close> alone whose only fetch
  raises.
\<close>

lemma chunk_ABCD:
  "chunk [''A'', ''B'', ''C'', ''D''] 3 = Inr [[''A'', ''B'', ''C''], [''D'']]"
  by (simp add: chunk_def upt_conv_Cons)

lemma run_first_fails:
  "build_status (sample_env fetch_first_fails) sample_prev [''A'', ''B'', ''C'', ''D''] =
     Inr (sample_snapshot
       [''A'' \<mapsto> \<lparr>loaded = True, has_snowtam = False, severity = ''gray'', changed = False,
                  last_change_utc = None,
                  error = Some ''RuntimeError: Notamify API error 401'', items = [],
                  evidence = None, hash = Some ''h1''\<rparr>,
        ''B'' \<mapsto> \<lparr>loaded = True, has_snowtam = False, severity = ''gray'', changed = False,
                  last_change_utc = Some ''2023-12-24T18:00:00Z'',
                  error = Some ''RuntimeError: Notamify API error 401'', items = [],
                  evidence = None, hash = Some ''h2''\<rparr>,
        ''C'' \<mapsto> \<lparr>loaded = True, has_snowtam = False, severity = ''gray'', changed = False,
                  last_change_utc = Some ''2023-12-31T06:00:00Z'',
                  error = Some ''RuntimeError: Notamify API error 401'', items = [],
                  evidence = None, hash = Some ''NO_SNOWTAM''\<rparr>,
        ''D'' \<mapsto> \<lparr>loaded = True, has_snowtam = False, severity = ''green'', changed = False,
                  last_change_utc = None, error = None, items = [],
                  evidence = None, hash = Some ''NO_SNOWTAM''\<rparr>])"
  by (simp add: sample_defs build_status_def chunk_ABCD process_batch_def prev_field_def
        failed_status_def airport_status_no_notams group_by_icao_Nil upt_conv_Cons)

lemma run_A_fails:
  "build_status (sample_env fetch_first_fails) sample_prev [''A''] =
     Inr (sample_snapshot
       [''A'' \<mapsto> \<lparr>loaded = True, has_snowtam = False, severity = ''gray'', changed = False,
                  last_change_utc = None,
                  error = Some ''RuntimeError: Notamify API error 401'', items = [],
                  evidence = None, hash = Some ''h1''\<rparr>])"
  by (simp add: sample_defs build_status_def chunk_def process_batch_def prev_field_def
        failed_status_def)

section \<open>Change detection\<close>

text \<open>
  Claim C1.  For an airport of a batch that was fetched, the record written has
  \<open>changed\<close> true if and only if the previous snapshot holds a fingerprint for the airport
  and it differs from the new one.  So an airport with no previous fingerprint, and in
  particular one with no previous record, is never changed, whatever its notices are.
  The same equivalence holds of every record of the final snapshot that carries no error,
  that is, of every record the success branch wrote.
\<close>

theorem changed_iff_previous_hash_differs:
  "(fetch e bi batch = Inr notams \<longrightarrow> icao \<in> set batch \<longrightarrow>
      (\<exists>r. process_batch e prev out (bi, batch) icao = Some r \<and> error r = None \<and>
           (changed r \<longleftrightarrow> (\<exists>h. prev_field prev icao hash = Some h \<and> hash r \<noteq> Some h)) \<and>
           (prev_field prev icao hash = None \<longrightarrow> \<not> changed r) \<and>
           (prev icao = None \<longrightarrow> \<not> changed r)))
   \<and> (build_status e prev icao_list = Inr snap \<longrightarrow> airports snap icao = Some r' \<longrightarrow>
        error r' = None \<longrightarrow>
        (changed r' \<longleftrightarrow> (\<exists>h. prev_field prev icao hash = Some h \<and> hash r' \<noteq> Some h)))"
proof (intro conjI impI)
  assume f: "fetch e bi batch = Inr notams" and m: "icao \<in> set batch"
  let ?r = "airport_status e prev icao
              (case group_by_icao batch notams icao of None \<Rightarrow> [] | Some l \<Rightarrow> l)"
  have p: "process_batch e prev out (bi, batch) icao = Some ?r"
    using f m by (simp add: process_batch_apply)
  show "\<exists>r. process_batch e prev out (bi, batch) icao = Some r \<and> error r = None \<and>
           (changed r \<longleftrightarrow> (\<exists>h. prev_field prev icao hash = Some h \<and> hash r \<noteq> Some h)) \<and>
           (prev_field prev icao hash = None \<longrightarrow> \<not> changed r) \<and>
           (prev icao = None \<longrightarrow> \<not> changed r)"
  proof (intro exI [of _ ?r] conjI impI)
    show "process_batch e prev out (bi, batch) icao = Some ?r" by (rule p)
    show "error ?r = None" by (rule airport_status_fields(2))
    show "changed ?r \<longleftrightarrow> (\<exists>h. prev_field prev icao hash = Some h \<and> hash ?r \<noteq> Some h)"
      by (rule airport_changed_iff)
    show "\<not> changed ?r" if "prev_field prev icao hash = None"
      using that by (rule airport_first_seen)
    show "\<not> changed ?r" if "prev icao = None"
      using that by (intro airport_first_seen prev_field_None)
  qed
next
  assume b: "build_status e prev icao_list = Inr snap" and a: "airports snap icao = Some r'"
    and n: "error r' = None"
  from successful_record [OF b a n] obtain ns where r': "r' = airport_status e prev icao ns" .
  show "changed r' \<longleftrightarrow> (\<exists>h. prev_field prev icao hash = Some h \<and> hash r' \<noteq> Some h)"
    unfolding r' by (rule airport_changed_iff)
qed

text \<open>
  The theorem at the sample run: \<open>A\<close> had the fingerprint \<open>h1\<close> and gets \<open>NO_SNOWTAM\<close>,
  so it is changed, after its batch and in the snapshot.
\<close>

theorem changed_iff_previous_hash_differs_witness:
  "fetch (sample_env fetch_nothing) 1 [''A'', ''C''] = Inr []
   \<and> ''A'' \<in> set [''A'', ''C'']
   \<and> prev_field sample_prev ''A'' hash = Some ''h1''
   \<and> (\<exists>r. process_batch (sample_env fetch_nothing) sample_prev Map.empty (1, [''A'', ''C'']) ''A''
            = Some r \<and> error r = None \<and> hash r = Some ''NO_SNOWTAM'' \<and> changed r)
   \<and> (\<exists>snap r'. build_status (sample_env fetch_nothing) sample_prev [''A'', ''C''] = Inr snap
         \<and> airports snap ''A'' = Some r' \<and> error r' = None \<and> hash r' = Some ''NO_SNOWTAM''
         \<and> changed r')"
  using changed_iff_previous_hash_differs
    [of "sample_env fetch_nothing" 1 "[''A'', ''C'']" "[]" "''A''" sample_prev Map.empty
        "[''A'', ''C'']"
        "sample_snapshot
          [''A'' \<mapsto> \<lparr>loaded = True, has_snowtam = False, severity = ''green'', changed = True,
                     last_change_utc = Some ''2024-01-02T03:04:05Z'', error = None, items = [],
                     evidence = None, hash = Some ''NO_SNOWTAM''\<rparr>,
           ''C'' \<mapsto> \<lparr>loaded = True, has_snowtam = False, severity = ''green'', changed = False,
                     last_change_utc = Some ''2023-12-31T06:00:00Z'', error = None, items = [],
                     evidence = None, hash = Some ''NO_SNOWTAM''\<rparr>]"
        "\<lparr>loaded = True, has_snowtam = False, severity = ''green'', changed = True,
          last_change_utc = Some ''2024-01-02T03:04:05Z'', error = None, items = [],
          evidence = None, hash = Some ''NO_SNOWTAM''\<rparr>"]
  by (simp add: run_nothing)
     (simp add: sample_defs prev_field_def process_batch_apply airport_status_no_notams
        group_by_icao_Nil)

text \<open>
  Claim C8.  For an airport of a batch that was fetched, the last-change timestamp of the
  record written is the time of the run when \<open>changed\<close> is true, and otherwise the one
  of the previous snapshot, carried forward as it is: null when the previous record has
  none, and null when there is no previous record.  The same holds of every record of
  the final snapshot that carries no error.
\<close>

theorem last_change_only_when_changed:
  "(fetch e bi batch = Inr notams \<longrightarrow> icao \<in> set batch \<longrightarrow>
      (\<exists>r. process_batch e prev out (bi, batch) icao = Some r \<and>
           last_change_utc r =
             (if changed r then Some (now e) else prev_field prev icao last_change_utc) \<and>
           (prev icao = None \<longrightarrow> last_change_utc r = None)))
   \<and> (build_status e prev icao_list = Inr snap \<longrightarrow> airports snap icao = Some r' \<longrightarrow>
        error r' = None \<longrightarrow>
        last_change_utc r' =
          (if changed r' then Some (now e) else prev_field prev icao last_change_utc))"
proof (intro conjI impI)
  assume f: "fetch e bi batch = Inr notams" and m: "icao \<in> set batch"
  let ?r = "airport_status e prev icao
              (case group_by_icao batch notams icao of None \<Rightarrow> [] | Some l \<Rightarrow> l)"
  have p: "process_batch e prev out (bi, batch) icao = Some ?r"
    using f m by (simp add: process_batch_apply)
  have l: "last_change_utc ?r =
             (if changed ?r then Some (now e) else prev_field prev icao last_change_utc)"
    by (rule airport_status_fields(5))
  have n: "last_change_utc ?r = None" if "prev icao = None"
  proof -
    from that have "\<not> changed ?r" by (intro airport_first_seen prev_field_None)
    with l that show ?thesis by (simp add: prev_field_None)
  qed
  show "\<exists>r. process_batch e prev out (bi, batch) icao = Some r \<and>
           last_change_utc r =
             (if changed r then Some (now e) else prev_field prev icao last_change_utc) \<and>
           (prev icao = None \<longrightarrow> last_change_utc r = None)"
  proof (intro exI [of _ ?r] conjI impI)
    show "process_batch e prev out (bi, batch) icao = Some ?r" by (rule p)
    show "last_change_utc ?r =
            (if changed ?r then Some (now e) else prev_field prev icao last_change_utc)"
      by (rule l)
    show "last_change_utc ?r = None" if "prev icao = None"
      using that by (rule n)
  qed
next
  assume b: "build_status e prev icao_list = Inr snap" and a: "airports snap icao = Some r'"
    and n: "error r' = None"
  from successful_record [OF b a n] obtain ns where r': "r' = airport_status e prev icao ns" .
  show "last_change_utc r' =
          (if changed r' then Some (now e) else prev_field prev icao last_change_utc)"
    unfolding r' by (rule airport_status_fields(5))
qed

text \<open>
  The theorem at the sample run: \<open>A\<close> changed and is stamped with the time of the run;
  \<open>C\<close> did not and keeps the timestamp of the previous snapshot.
\<close>

theorem last_change_only_when_changed_witness:
  "fetch (sample_env fetch_nothing) 1 [''A'', ''C''] = Inr []
   \<and> ''A'' \<in> set [''A'', ''C''] \<and> ''C'' \<in> set [''A'', ''C'']
   \<and> prev_field sample_prev ''A'' last_change_utc = None
   \<and> prev_field sample_prev ''C'' last_change_utc = Some ''2023-12-31T06:00:00Z''
   \<and> now (sample_env fetch_nothing) = ''2024-01-02T03:04:05Z''
   \<and> (\<exists>r. process_batch (sample_env fetch_nothing) sample_prev Map.empty (1, [''A'', ''C'']) ''A''
            = Some r \<and> changed r \<and> last_change_utc r = Some ''2024-01-02T03:04:05Z'')
   \<and> (\<exists>r. process_batch (sample_env fetch_nothing) sample_prev Map.empty (1, [''A'', ''C'']) ''C''
            = Some r \<and> \<not> changed r \<and> last_change_utc r = Some ''2023-12-31T06:00:00Z'')
   \<and> (\<exists>snap r'. build_status (sample_env fetch_nothing) sample_prev [''A'', ''C''] = Inr snap
         \<and> airports snap ''C'' = Some r' \<and> error r' = None \<and> \<not> changed r'
         \<and> last_change_utc r' = Some ''2023-12-31T06:00:00Z'')"
  using last_change_only_when_changed
    [of "sample_env fetch_nothing" 1 "[''A'', ''C'']" "[]" "''A''" sample_prev Map.empty]
    last_change_only_when_changed
    [of "sample_env fetch_nothing" 1 "[''A'', ''C'']" "[]" "''C''" sample_prev Map.empty
        "[''A'', ''C'']"
        "sample_snapshot
          [''A'' \<mapsto> \<lparr>loaded = True, has_snowtam = False, severity = ''green'', changed = True,
                     last_change_utc = Some ''2024-01-02T03:04:05Z'', error = None, items = [],
                     evidence = None, hash = Some ''NO_SNOWTAM''\<rparr>,
           ''C'' \<mapsto> \<lparr>loaded = True, has_snowtam = False, severity = ''green'', changed = False,
                     last_change_utc = Some ''2023-12-31T06:00:00Z'', error = None, items = [],
                     evidence = None, hash = Some ''NO_SNOWTAM''\<rparr>]"
        "\<lparr>loaded = True, has_snowtam = False, severity = ''green'', changed = False,
          last_change_utc = Some ''2023-12-31T06:00:00Z'', error = None, items = [],
          evidence = None, hash = Some ''NO_SNOWTAM''\<rparr>"]
  by (simp add: run_nothing)
     (simp add: sample_defs prev_field_def process_batch_apply airport_status_no_notams
        group_by_icao_Nil)

section \<open>Severity of an airport with no relevant notice\<close>

text \<open>
  Claim C2, as the specification states it: whenever \<open>has_snowtam\<close> is false in a record
  produced by a run, its severity is \<open>green\<close>.  This does not hold of the records the
  failure branch writes: they have \<open>has_snowtam\<close> false and the severity \<open>gray\<close>.  The
  run over \<open>A\<close> alone whose fetch raises shows it.
\<close>

theorem no_snowtam_gray_after_fetch_failure:
  "build_status (sample_env fetch_first_fails) sample_prev [''A''] =
     Inr (sample_snapshot
       [''A'' \<mapsto> \<lparr>loaded = True, has_snowtam = False, severity = ''gray'', changed = False,
                  last_change_utc = None,
                  error = Some ''RuntimeError: Notamify API error 401'', items = [],
                  evidence = None, hash = Some ''h1''\<rparr>])
   \<and> ''gray'' \<noteq> ''green''"
  by (simp add: run_A_fails)

text \<open>
  Claim C2, amended.  In a record of the snapshot with \<open>has_snowtam\<close> false, the severity
  is \<open>green\<close> when the record carries no error (its batch was fetched), and \<open>gray\<close> when
  it carries one (the fetch of its batch raised).
\<close>

theorem no_snowtam_green_unless_fetch_failed:
  assumes "build_status e prev icao_list = Inr snap" and "airports snap icao = Some r"
    and "\<not> has_snowtam r"
  shows "(if error r = None then severity r = ''green'' else severity r = ''gray'')"
  using build_status_records [OF assms(1,2)] assms(3)
  by (auto simp: failed_status_fields airport_status_fields)

text \<open>
  The amended statement at the sample run with a failing first batch, for airport \<open>D\<close>
  of the second batch: no relevant notice, no error, severity \<open>green\<close>.
\<close>

theorem no_snowtam_green_unless_fetch_failed_witness:
  "build_status (sample_env fetch_first_fails) sample_prev [''A'', ''B'', ''C'', ''D''] =
     Inr (sample_snapshot
       [''A'' \<mapsto> \<lparr>loaded = True, has_snowtam = False, severity = ''gray'', changed = False,
                  last_change_utc = None,
                  error = Some ''RuntimeError: Notamify API error 401'', items = [],
                  evidence = None, hash = Some ''h1''\<rparr>,
        ''B'' \<mapsto> \<lparr>loaded = True, has_snowtam = False, severity = ''gray'', changed = False,
                  last_change_utc = Some ''2023-12-24T18:00:00Z'',
                  error = Some ''RuntimeError: Notamify API error 401'', items = [],
                  evidence = None, hash = Some ''h2''\<rparr>,
        ''C'' \<mapsto> \<lparr>loaded = True, has_snowtam = False, severity = ''gray'', changed = False,
                  last_change_utc = Some ''2023-12-31T06:00:00Z'',
                  error = Some ''RuntimeError: Notamify API error 401'', items = [],
                  evidence = None, hash = Some ''NO_SNOWTAM''\<rparr>,
        ''D'' \<mapsto> \<lparr>loaded = True, has_snowtam = False, severity = ''green'', changed = False,
                  last_change_utc = None, error = None, items = [],
                  evidence = None, hash = Some ''NO_SNOWTAM''\<rparr>])
   \<and> severity \<lparr>loaded = True, has_snowtam = False, severity = ''green'', changed = False,
                  last_change_utc = None, error = None, items = [],
                  evidence = None, hash = Some ''NO_SNOWTAM''\<rparr> = ''green''"
  using no_snowtam_green_unless_fetch_failed [OF run_first_fails, of "''D''"]
  by (simp add: run_first_fails)

section \<open>Failure of a fetch\<close>



section \<open>Coverage of the snapshot\<close>

text \<open>
  The batch size is read from the environment.  With the size 0 \<open>chunk\<close> raises and the
  run returns no snapshot; with a negative size there is no batch and the snapshot has no
  airport.
\<close>

lemma build_status_zero_batch:
  "BATCH_SIZE e = 0 \<Longrightarrow> build_status e prev icao_list = Inl ValueError"
  by (simp add: build_status_def chunk_def)

lemma build_status_negative_batch:
  "BATCH_SIZE e < 0 \<Longrightarrow>
     \<exists>snap. build_status e prev icao_list = Inr snap \<and> airports snap = Map.empty"
  by (simp add: build_status_def chunk_def)




end
